theory Spec2Isabelle
  imports Complex_Main "HOL-Library.Multiset" "HOL-Library.Log_Nat"
begin

section \<open>Values of the arrays\<close>

text \<open>
  The arrays of \<^verbatim>\<open>explore_prf.py\<close> hold 64-bit floats. A float is modelled as one of the
  IEEE 754 special values (NaN, the two infinities) or as the real number it denotes; the
  negative zero is identified with zero.

  The element-wise arithmetic on arrays (\<open>f_add\<close>, \<open>f_sub\<close>, \<open>f_mul\<close>, \<open>f_div\<close>) is
  exact on finite values: the rounding of a pixel value, of a sample or of a synthetic
  position is not modelled. The scalar arithmetic whose result is converted to an integer
  or returned as the fit domain is rounded to binary64 (\<open>round_f64\<close>, \<open>fl_add\<close>, \<open>fl_sub\<close>):
  the bounds of the rectangle of a source, \<^verbatim>\<open>middle_npoints\<close>, the paddings and the
  domain. The special values follow IEEE 754 in both, which is what numpy and Python
  compute here (an overflow or a division by zero in an array gives an infinity or NaN,
  never an exception).
\<close>

datatype f64 = Finite real | PosInf | NegInf | NaN

fun isfinite :: "f64 \<Rightarrow> bool" where
  "isfinite (Finite _) = True"
| "isfinite _ = False"

fun f_neg :: "f64 \<Rightarrow> f64" where
  "f_neg (Finite a) = Finite (- a)"
| "f_neg PosInf = NegInf"
| "f_neg NegInf = PosInf"
| "f_neg NaN = NaN"

fun f_add :: "f64 \<Rightarrow> f64 \<Rightarrow> f64" where
  "f_add (Finite a) (Finite b) = Finite (a + b)"
| "f_add NaN _ = NaN"
| "f_add _ NaN = NaN"
| "f_add PosInf NegInf = NaN"
| "f_add NegInf PosInf = NaN"
| "f_add PosInf _ = PosInf"
| "f_add NegInf _ = NegInf"
| "f_add _ PosInf = PosInf"
| "f_add _ NegInf = NegInf"

definition f_sub :: "f64 \<Rightarrow> f64 \<Rightarrow> f64" where
  "f_sub a b = f_add a (f_neg b)"

text \<open>The sign of a value, for the sign of a quotient: 1, 0 or -1 (NaN has none).\<close>

fun f_sign :: "f64 \<Rightarrow> int" where
  "f_sign (Finite a) = (if a < 0 then - 1 else if a = 0 then 0 else 1)"
| "f_sign PosInf = 1"
| "f_sign NegInf = - 1"
| "f_sign NaN = 0"

fun f_div :: "f64 \<Rightarrow> f64 \<Rightarrow> f64" where
  "f_div NaN _ = NaN"
| "f_div _ NaN = NaN"
| "f_div (Finite a) (Finite b) =
     (if b \<noteq> 0 then Finite (a / b)
      else if a = 0 then NaN
      else if a < 0 then NegInf else PosInf)"
| "f_div (Finite a) _ = Finite 0"
| "f_div a (Finite b) =
     (if (f_sign a < 0) = (b < 0) then PosInf else NegInf)"
| "f_div _ _ = NaN"

fun f_mul :: "f64 \<Rightarrow> f64 \<Rightarrow> f64" where
  "f_mul NaN _ = NaN"
| "f_mul _ NaN = NaN"
| "f_mul (Finite a) (Finite b) = Finite (a * b)"
| "f_mul a b =
     (if f_sign a = 0 \<or> f_sign b = 0 then NaN
      else if f_sign a = f_sign b then PosInf else NegInf)"

text \<open>Comparison: every comparison with NaN is false.\<close>

fun f_less :: "f64 \<Rightarrow> f64 \<Rightarrow> bool" where
  "f_less NaN _ = False"
| "f_less _ NaN = False"
| "f_less (Finite a) (Finite b) = (a < b)"
| "f_less NegInf NegInf = False"
| "f_less NegInf _ = True"
| "f_less _ NegInf = False"
| "f_less PosInf _ = False"
| "f_less _ PosInf = True"

subsection \<open>Rounding to binary64\<close>

text \<open>
  The integer nearest to a real number, the even one of the two when it lies half way.
\<close>

definition round_half_even :: "real \<Rightarrow> int" where
  "round_half_even x =
     (let f = \<lfloor>x\<rfloor>; d = x - of_int f
      in if d < 1 / 2 then f else if 1 / 2 < d then f + 1 else if even f then f else f + 1)"

text \<open>
  The finite values of binary64 are the multiples m * 2^e of a power of two with
  \<open>\<bar>m\<bar> < 2^53\<close> and \<open>- 1074 \<le> e \<le> 971\<close>. Around a real number \<open>x\<close> with
  \<open>2^(52 + k) \<le> \<bar>x\<bar> * 2^1074 < 2^(53 + k)\<close> they are \<open>2^k * 2^(- 1074)\<close> apart, and
  \<open>2^(- 1074)\<close> apart around a smaller one: \<open>spacing_exp x\<close> is this \<open>k\<close>, found from the
  number of bits of the integer part of \<open>\<bar>x\<bar> * 2^1074\<close>.
\<close>

definition tiny_exp :: nat where
  "tiny_exp = 1074"

definition spacing_exp :: "real \<Rightarrow> nat" where
  "spacing_exp x = nat (bitlen \<lfloor>\<bar>x\<bar> * 2 ^ tiny_exp\<rfloor> - 53)"

definition quantize :: "nat \<Rightarrow> real \<Rightarrow> real" where
  "quantize k X = of_int (round_half_even (X / 2 ^ k)) * 2 ^ k"

text \<open>
  Rounding to nearest, ties to even, with an unbounded exponent; and the float that an
  operation with the exact result \<open>x\<close> returns: a result of magnitude 2^1024 or more
  after rounding is an infinity.
\<close>

definition round_real :: "real \<Rightarrow> real" where
  "round_real x = quantize (spacing_exp x) (x * 2 ^ tiny_exp) / 2 ^ tiny_exp"

definition overflow_bound :: real where
  "overflow_bound = 2 ^ 1024"

definition round_f64 :: "real \<Rightarrow> f64" where
  "round_f64 x =
     (let y = round_real x
      in if overflow_bound \<le> y then PosInf
         else if y \<le> - overflow_bound then NegInf
         else Finite y)"

text \<open>A real number is a value of binary64 when rounding keeps it.\<close>

definition is_double :: "real \<Rightarrow> bool" where
  "is_double x \<longleftrightarrow> round_f64 x = Finite x"

text \<open>Addition and subtraction of two floats, rounded.\<close>

definition fl_add :: "f64 \<Rightarrow> f64 \<Rightarrow> f64" where
  "fl_add a b = (case (a, b) of (Finite x, Finite y) \<Rightarrow> round_f64 (x + y) | _ \<Rightarrow> f_add a b)"

definition fl_sub :: "f64 \<Rightarrow> f64 \<Rightarrow> f64" where
  "fl_sub a b = fl_add a (f_neg b)"

text \<open>\<^verbatim>\<open>scipy.floor\<close> and \<^verbatim>\<open>scipy.ceil\<close> return floats and keep the special values.\<close>

fun f_floor :: "f64 \<Rightarrow> f64" where
  "f_floor (Finite a) = Finite (of_int \<lfloor>a\<rfloor>)"
| "f_floor a = a"

fun f_ceil :: "f64 \<Rightarrow> f64" where
  "f_ceil (Finite a) = Finite (of_int \<lceil>a\<rceil>)"
| "f_ceil a = a"

text \<open>
  Python's \<^verbatim>\<open>max(a, b)\<close> and \<^verbatim>\<open>min(a, b)\<close> of two numbers return \<open>a\<close> unless \<open>b\<close> is
  greater, respectively less.
\<close>

definition py_max :: "f64 \<Rightarrow> f64 \<Rightarrow> f64" where
  "py_max a b = (if f_less a b then b else a)"

definition py_min :: "f64 \<Rightarrow> f64 \<Rightarrow> f64" where
  "py_min a b = (if f_less b a then b else a)"

subsection \<open>Errors\<close>

datatype error = ValueError | ZeroDivisionError | OverflowError

text \<open>Sequencing of steps that may raise.\<close>

definition bind_e :: "error + 'a \<Rightarrow> ('a \<Rightarrow> error + 'b) \<Rightarrow> error + 'b" where
  "bind_e m f = (case m of Inl e \<Rightarrow> Inl e | Inr v \<Rightarrow> f v)"

text \<open>
  Python's \<^verbatim>\<open>int()\<close> of a float truncates towards zero; it raises \<^verbatim>\<open>OverflowError\<close> for
  an infinity and \<^verbatim>\<open>ValueError\<close> for NaN.
\<close>

definition py_int :: "real \<Rightarrow> int" where
  "py_int q = (if 0 \<le> q then \<lfloor>q\<rfloor> else \<lceil>q\<rceil>)"

fun int_of_f64 :: "f64 \<Rightarrow> error + int" where
  "int_of_f64 (Finite a) = Inr (py_int a)"
| "int_of_f64 NaN = Inl ValueError"
| "int_of_f64 _ = Inl OverflowError"

section \<open>Sources, configuration and the assignment grid\<close>

text \<open>
  One row of the field array returned by \<^verbatim>\<open>get_source_info\<close>. The positions are finite
  floats (\<^verbatim>\<open>get_source_positions\<close> keeps \<^verbatim>\<open>0 < x < resolution + 1\<close> only, and
  \<^verbatim>\<open>int()\<close> of a non-finite bound raises before anything is written); flux and
  background are measured values and may be NaN.
\<close>

record source =
  src_id :: string
  src_x :: real
  src_y :: real
  src_flux :: f64
  src_bg :: f64
  src_bg_err :: f64
  src_bg_npix :: nat
  src_enabled :: f64

text \<open>
  \<^verbatim>\<open>--prf-range\<close>: width, height, x and y offset of the extraction centre from the lower
  left corner (\<^verbatim>\<open>prf_range[0]\<close> .. \<^verbatim>\<open>prf_range[3]\<close>).
\<close>

record prf_range =
  pr_width :: real
  pr_height :: real
  pr_x_offset :: real
  pr_y_offset :: real

text \<open>
  The bounds \<^verbatim>\<open>min_x, max_x, min_y, max_y\<close> computed per source in the loop of
  \<^verbatim>\<open>find_pixel_offsets\<close>. The difference \<^verbatim>\<open>x - prf_range[2]\<close> and the sum with
  \<^verbatim>\<open>prf_range[0]\<close> are floats, rounded one after the other; \<^verbatim>\<open>int()\<close> raises when the
  clipped bound is still infinite. \<^verbatim>\<open>image_resolution\<close> is (rows, columns), so the x
  bounds are clipped with \<^verbatim>\<open>image_resolution[1]\<close> and the y bounds with
  \<^verbatim>\<open>image_resolution[0]\<close>.
\<close>

definition min_x :: "source \<Rightarrow> prf_range \<Rightarrow> error + int" where
  "min_x s r =
     int_of_f64 (py_max (f_floor (fl_sub (Finite (src_x s)) (Finite (pr_x_offset r))))
                   (Finite 0))"

definition max_x :: "source \<Rightarrow> prf_range \<Rightarrow> nat \<times> nat \<Rightarrow> error + int" where
  "max_x s r image_resolution =
     int_of_f64 (py_min (f_ceil (fl_add (fl_sub (Finite (src_x s)) (Finite (pr_x_offset r)))
                                   (Finite (pr_width r))))
                   (Finite (real (snd image_resolution))))"

definition min_y :: "source \<Rightarrow> prf_range \<Rightarrow> error + int" where
  "min_y s r =
     int_of_f64 (py_max (f_floor (fl_sub (Finite (src_y s)) (Finite (pr_y_offset r))))
                   (Finite 0))"

definition max_y :: "source \<Rightarrow> prf_range \<Rightarrow> nat \<times> nat \<Rightarrow> error + int" where
  "max_y s r image_resolution =
     int_of_f64 (py_min (f_ceil (fl_add (fl_sub (Finite (src_y s)) (Finite (pr_y_offset r)))
                                   (Finite (pr_height r))))
                   (Finite (real (fst image_resolution))))"

text \<open>The four bounds, in the order of their computation.\<close>

definition bounds :: "prf_range \<Rightarrow> nat \<times> nat \<Rightarrow> source \<Rightarrow> error + int \<times> int \<times> int \<times> int" where
  "bounds r image_resolution s =
     bind_e (min_x s r) (\<lambda>lo_x.
     bind_e (max_x s r image_resolution) (\<lambda>hi_x.
     bind_e (min_y s r) (\<lambda>lo_y.
     bind_e (max_y s r image_resolution) (\<lambda>hi_y.
     Inr (lo_x, hi_x, lo_y, hi_y)))))"

text \<open>
  Clipping to the image leaves the bounds of an axis unchanged when the floor of the
  lower edge and the ceiling of the upper edge, as computed, are inside the image.
\<close>

definition unclipped :: "real \<Rightarrow> real \<Rightarrow> real \<Rightarrow> nat \<Rightarrow> bool" where
  "unclipped x offset extent n \<longleftrightarrow>
     (case fl_sub (Finite x) (Finite offset) of
        Finite a \<Rightarrow>
          (case fl_add (Finite a) (Finite extent) of
             Finite b \<Rightarrow> 0 \<le> \<lfloor>a\<rfloor> \<and> \<lceil>b\<rceil> \<le> int n
           | _ \<Rightarrow> False)
      | _ \<Rightarrow> False)"

definition unclipped_x :: "source \<Rightarrow> prf_range \<Rightarrow> nat \<times> nat \<Rightarrow> bool" where
  "unclipped_x s r image_resolution \<longleftrightarrow>
     unclipped (src_x s) (pr_x_offset r) (pr_width r) (snd image_resolution)"

definition unclipped_y :: "source \<Rightarrow> prf_range \<Rightarrow> nat \<times> nat \<Rightarrow> bool" where
  "unclipped_y s r image_resolution \<longleftrightarrow>
     unclipped (src_y s) (pr_y_offset r) (pr_height r) (fst image_resolution)"

text \<open>
  One element of the field array that \<^verbatim>\<open>find_pixel_offsets\<close> returns, with the fields
  \<^verbatim>\<open>x_off\<close>, \<^verbatim>\<open>y_off\<close>, \<^verbatim>\<open>norm\<close> (here \<open>norm_f\<close>) and \<^verbatim>\<open>zero_point\<close>.
\<close>

record cell =
  x_off :: f64
  y_off :: f64
  norm_f :: f64
  zero_point :: f64

definition nan_cell :: cell where
  "nan_cell = \<lparr>x_off = NaN, y_off = NaN, norm_f = NaN, zero_point = NaN\<rparr>"

text \<open>A pixel is invalid when all its fields are the NaN sentinel.\<close>

definition invalid :: "cell \<Rightarrow> bool" where
  "invalid c \<longleftrightarrow> x_off c = NaN \<and> y_off c = NaN \<and> norm_f c = NaN \<and> zero_point c = NaN"

text \<open>A 2-D array is the list of its rows.\<close>

type_synonym 'a array2 = "'a list list"

definition full :: "nat \<times> nat \<Rightarrow> 'a \<Rightarrow> 'a array2" where
  "full shape v = replicate (fst shape) (replicate (snd shape) v)"

text \<open>
  Python's slice \<^verbatim>\<open>a[start : stop]\<close> on an axis of length \<open>n\<close>: a negative bound counts
  from the end, and both bounds are clamped to the axis. The slice selects the indices
  from the first component up to, not including, the second.
\<close>

definition slice_index :: "int \<Rightarrow> nat \<Rightarrow> nat" where
  "slice_index i n = (if i < 0 then nat (max (i + int n) 0) else min (nat i) n)"

definition slice_bounds :: "int \<Rightarrow> int \<Rightarrow> nat \<Rightarrow> nat \<times> nat" where
  "slice_bounds start stop n = (slice_index start n, slice_index stop n)"

definition slice_len :: "nat \<times> nat \<Rightarrow> nat" where
  "slice_len b = snd b - fst b"

definition in_slice :: "nat \<times> nat \<Rightarrow> nat \<Rightarrow> bool" where
  "in_slice b k \<longleftrightarrow> fst b \<le> k \<and> k < snd b"

text \<open>
  Writing through the view \<^verbatim>\<open>a[ys, xs]\<close>: the element at patch position \<open>(j, i)\<close> becomes
  \<open>f j i\<close> of its old value, everything outside the patch is unchanged.
\<close>

definition set_patch ::
  "nat \<times> nat \<Rightarrow> nat \<times> nat \<Rightarrow> (nat \<Rightarrow> nat \<Rightarrow> 'a \<Rightarrow> 'a) \<Rightarrow> 'a array2 \<Rightarrow> 'a array2" where
  "set_patch ys xs f a =
     map (\<lambda>j. map (\<lambda>i. if in_slice ys j \<and> in_slice xs i
                         then f (j - fst ys) (i - fst xs) (a ! j ! i)
                         else a ! j ! i)
                 [0..<length (a ! j)])
         [0..<length a]"

text \<open>\<^verbatim>\<open>scipy.arange(lo, hi)\<close>: the integers from \<open>lo\<close> up to, not including, \<open>hi\<close>.\<close>

definition arange :: "int \<Rightarrow> int \<Rightarrow> int list" where
  "arange lo hi = map (\<lambda>k. lo + int k) [0..<nat (hi - lo)]"

text \<open>
  numpy's broadcasting of a 1-D value along the last axis of the target: the lengths
  must agree, or the value has length 1 and is repeated; anything else raises
  \<^verbatim>\<open>ValueError\<close>, also when the target is empty.
\<close>

definition broadcastable :: "nat \<Rightarrow> nat \<Rightarrow> bool" where
  "broadcastable k n \<longleftrightarrow> k = n \<or> k = 1"

definition bcast :: "'a list \<Rightarrow> nat \<Rightarrow> 'a" where
  "bcast vals i = (if length vals = 1 then vals ! 0 else vals ! i)"

subsection \<open>Crowding\<close>

text \<open>
  Modelled from the spec: \<^verbatim>\<open>scipy.spatial.cKDTree.query_ball_point\<close> is library code, not
  part of the repository. The ball of the query is closed: a point at distance exactly
  \<open>r\<close> is inside (\<^verbatim>\<open>distance <= crowding_distance\<close>), and no point is for a negative \<open>r\<close>.
\<close>

definition in_ball :: "real \<Rightarrow> source \<Rightarrow> source \<Rightarrow> bool" where
  "in_ball r s t \<longleftrightarrow>
     0 \<le> r \<and> (src_x s - src_x t)\<^sup>2 + (src_y s - src_y t)\<^sup>2 \<le> r\<^sup>2"

text \<open>
  Modelled from the spec: with \<^verbatim>\<open>return_length=True\<close> the query gives the number of points
  of the tree in the ball around the query point. The tree holds the sources themselves
  (\<^verbatim>\<open>source_tree.data\<close> is queried against \<^verbatim>\<open>source_tree\<close>), so a source counts itself.
\<close>

definition query_ball_point :: "source list \<Rightarrow> source \<Rightarrow> real \<Rightarrow> nat" where
  "query_ball_point tree s r = length (filter (in_ball r s) tree)"

text \<open>\<^verbatim>\<open>crowded_flags = source_tree.query_ball_point(...) > 1\<close>, one flag per source.\<close>

definition crowded_flags :: "source list \<Rightarrow> real \<Rightarrow> bool list" where
  "crowded_flags sources crowding_distance =
     map (\<lambda>s. query_ball_point sources s crowding_distance > 1) sources"

subsection \<open>The loop over the sources\<close>

text \<open>
  One iteration of \<^verbatim>\<open>for this_source, crowded in zip(sources, crowded_flags)\<close>, on the
  state \<^verbatim>\<open>(result, shared)\<close>. A bound \<^verbatim>\<open>max_x\<close> or \<^verbatim>\<open>max_y\<close> below zero makes the
  slice count from the end of the axis while \<^verbatim>\<open>arange\<close> is empty, and the assignment of
  the offsets raises.
\<close>

definition assign_source ::
  "prf_range \<Rightarrow> nat \<times> nat \<Rightarrow> source \<times> bool \<Rightarrow> cell array2 \<times> bool array2
     \<Rightarrow> error + cell array2 \<times> bool array2" where
  "assign_source r image_resolution sc st =
     (let this_source = fst sc; crowded = snd sc;
          result = fst st; shared = snd st
      in bind_e (bounds r image_resolution this_source) (\<lambda>(lo_x, hi_x, lo_y, hi_y).
         let ys = slice_bounds lo_y hi_y (fst image_resolution);
             xs = slice_bounds lo_x hi_x (snd image_resolution);
             shared' = (if crowded then set_patch ys xs (\<lambda>j i b. True) shared
                        else set_patch ys xs
                               (\<lambda>j i b. if isfinite (x_off (result ! (fst ys + j) ! (fst xs + i)))
                                        then True else b) shared);
             x_vals = map (\<lambda>k. Finite (real_of_int k - src_x this_source + 1 / 2))
                        (arange lo_x hi_x);
             y_vals = map (\<lambda>k. Finite (real_of_int k - src_y this_source + 1 / 2))
                        (arange lo_y hi_y)
         in if \<not> broadcastable (length x_vals) (slice_len xs) then Inl ValueError
            else if \<not> broadcastable (length y_vals) (slice_len ys) then Inl ValueError
            else
              Inr (set_patch ys xs (\<lambda>j i c. c\<lparr>norm_f := src_flux this_source\<rparr>)
                    (set_patch ys xs (\<lambda>j i c. c\<lparr>zero_point := src_bg this_source\<rparr>)
                      (set_patch ys xs (\<lambda>j i c. c\<lparr>y_off := bcast y_vals j\<rparr>)
                        (set_patch ys xs (\<lambda>j i c. c\<lparr>x_off := bcast x_vals i\<rparr>) result))),
                   shared')))"

fun assign_all ::
  "prf_range \<Rightarrow> nat \<times> nat \<Rightarrow> (source \<times> bool) list \<Rightarrow> cell array2 \<times> bool array2
     \<Rightarrow> error + cell array2 \<times> bool array2" where
  "assign_all r res [] st = Inr st"
| "assign_all r res (sc # rest) st =
     (case assign_source r res sc st of
        Inl e \<Rightarrow> Inl e
      | Inr st' \<Rightarrow> assign_all r res rest st')"

text \<open>\<^verbatim>\<open>result[shared] = scipy.nan\<close>: every field of a shared pixel becomes NaN.\<close>

definition invalidate :: "cell array2 \<Rightarrow> bool array2 \<Rightarrow> cell array2" where
  "invalidate result shared =
     map (\<lambda>j. map (\<lambda>i. if shared ! j ! i then nan_cell else result ! j ! i)
                 [0..<length (result ! j)])
         [0..<length result]"

definition find_pixel_offsets ::
  "source list \<Rightarrow> prf_range \<Rightarrow> nat \<times> nat \<Rightarrow> real \<Rightarrow> error + cell array2" where
  "find_pixel_offsets sources r image_resolution crowding_distance =
     (case assign_all r image_resolution
             (zip sources (crowded_flags sources crowding_distance))
             (full image_resolution nan_cell, full image_resolution False) of
        Inl e \<Rightarrow> Inl e
      | Inr st \<Rightarrow> Inr (invalidate (fst st) (snd st)))"

section \<open>What the assignment grid holds\<close>

text \<open>
  A 2-D array has the shape \<open>(rows, columns)\<close> when it has that many rows, each of that
  many elements.
\<close>

definition shaped :: "nat \<times> nat \<Rightarrow> 'a array2 \<Rightarrow> bool" where
  "shaped shape a \<longleftrightarrow> length a = fst shape \<and> (\<forall>row \<in> set a. length row = snd shape)"

text \<open>
  A source covers the pixel in row \<open>j\<close> and column \<open>i\<close> when the pixel lies in its patch
  \<^verbatim>\<open>result[min_y : max_y, min_x : max_x]\<close>, the clipped extraction rectangle.
\<close>

definition covers :: "prf_range \<Rightarrow> nat \<times> nat \<Rightarrow> source \<Rightarrow> nat \<Rightarrow> nat \<Rightarrow> bool" where
  "covers r res s j i \<longleftrightarrow>
     (case bounds r res s of
        Inr (lo_x, hi_x, lo_y, hi_y) \<Rightarrow>
          in_slice (slice_bounds lo_y hi_y (fst res)) j \<and>
          in_slice (slice_bounds lo_x hi_x (snd res)) i
      | Inl e \<Rightarrow> False)"

text \<open>
  The bounds of the patch of a source are computed without error, and the two
  assignments of offsets to the patch broadcast without error.
\<close>

definition patch_ok :: "prf_range \<Rightarrow> nat \<times> nat \<Rightarrow> source \<Rightarrow> bool" where
  "patch_ok r res s \<longleftrightarrow>
     (case bounds r res s of
        Inr (lo_x, hi_x, lo_y, hi_y) \<Rightarrow>
          broadcastable (nat (hi_x - lo_x)) (slice_len (slice_bounds lo_x hi_x (snd res))) \<and>
          broadcastable (nat (hi_y - lo_y)) (slice_len (slice_bounds lo_y hi_y (fst res)))
      | Inl e \<Rightarrow> False)"

text \<open>
  The cell a source writes to a pixel of its patch: the offsets of the pixel centre from
  the source, the flux as normalisation and the background as zero point.
\<close>

definition cell_of :: "source \<Rightarrow> nat \<Rightarrow> nat \<Rightarrow> cell" where
  "cell_of s j i =
     \<lparr>x_off = Finite (real i - src_x s + 1 / 2), y_off = Finite (real j - src_y s + 1 / 2),
      norm_f = src_flux s, zero_point = src_bg s\<rparr>"

text \<open>
  The effect of one iteration of the loop on a single pixel: the cell and its shared
  flag.
\<close>

definition pstep ::
  "prf_range \<Rightarrow> nat \<times> nat \<Rightarrow> nat \<Rightarrow> nat \<Rightarrow> source \<times> bool \<Rightarrow> cell \<times> bool \<Rightarrow> cell \<times> bool" where
  "pstep r res j i sc p =
     (if covers r res (fst sc) j i
      then (cell_of (fst sc) j i, snd sc \<or> isfinite (x_off (fst p)) \<or> snd p)
      else p)"

text \<open>
  A source is crowded when the ball query counts more than one source.
\<close>

definition crowded :: "source list \<Rightarrow> real \<Rightarrow> source \<Rightarrow> bool" where
  "crowded sources cd s \<longleftrightarrow> 1 < query_ball_point sources s cd"

text \<open>
  The sources whose patch holds a pixel, in processing order, and the cell the pixel
  ends with: the cell of its only claimant when that one is not crowded, the NaN
  sentinel otherwise.
\<close>

definition claimants :: "prf_range \<Rightarrow> nat \<times> nat \<Rightarrow> source list \<Rightarrow> nat \<Rightarrow> nat \<Rightarrow> source list" where
  "claimants r res sources j i = filter (\<lambda>s. covers r res s j i) sources"

definition pixel_spec ::
  "source list \<Rightarrow> prf_range \<Rightarrow> nat \<times> nat \<Rightarrow> real \<Rightarrow> nat \<Rightarrow> nat \<Rightarrow> cell" where
  "pixel_spec sources r res cd j i =
     (case claimants r res sources j i of
        [s] \<Rightarrow> if crowded sources cd s then nan_cell else cell_of s j i
      | _ \<Rightarrow> nan_cell)"

definition invalid_pixels :: "cell array2 \<Rightarrow> (nat \<times> nat) set" where
  "invalid_pixels g = {(j, i). j < length g \<and> i < length (g ! j) \<and> invalid (g ! j ! i)}"

text \<open>
  The Euclidean distance between two sources, in the words of the specification.
\<close>

definition distance :: "source \<Rightarrow> source \<Rightarrow> real" where
  "distance s t = sqrt ((src_x s - src_x t)\<^sup>2 + (src_y s - src_y t)\<^sup>2)"

section \<open>Extraction of the normalised samples\<close>

text \<open>
  The array returned by \<^verbatim>\<open>get_prf_data\<close> has shape (4, N): row 0 and row 1 hold the
  offsets, row 2 the normalised values and row 3 their errors. It is modelled as the list
  of its N columns, one record per sample.
\<close>

record sample =
  sx :: f64
  sy :: f64
  sval :: f64
  serr :: f64









definition f_le :: "f64 \<Rightarrow> f64 \<Rightarrow> bool" where
  "f_le a b \<longleftrightarrow> f_less a b \<or> (a = b \<and> a \<noteq> NaN)"

section \<open>Padding of the samples\<close>

text \<open>The command line arguments that \<^verbatim>\<open>pad_prf_data\<close> reads.\<close>

record cmdline_args =
  args_prf_range :: prf_range
  spline_pad_fraction :: real
  spline_pad_npoints :: int

text \<open>
  \<^verbatim>\<open>scipy.linspace(start, stop, num)\<close>: \<open>num\<close> evenly spaced points with both ends
  included; a negative \<open>num\<close> raises. numpy computes \<^verbatim>\<open>arange(0, num) * step + start\<close>
  with \<^verbatim>\<open>step = (stop - start) / (num - 1)\<close>, and for a single point
  \<^verbatim>\<open>arange(0, num) * (stop - start) + start\<close>; with more than one point the last one is
  set to \<open>stop\<close>. \<^verbatim>\<open>[1:-1]\<close> drops the first and the last element.
\<close>

definition linspace :: "f64 \<Rightarrow> f64 \<Rightarrow> int \<Rightarrow> error + f64 list" where
  "linspace start stop num =
     (if num < 0 then Inl ValueError
      else
        let delta = f_sub stop start;
            step = (if num = 1 then delta else f_div delta (Finite (real_of_int (num - 1))))
        in Inr (map (\<lambda>k. if 1 < num \<and> int k = num - 1 then stop
                          else f_add (f_mul (Finite (real k)) step) start)
                  [0..<nat num]))"

definition inner :: "'a list \<Rightarrow> 'a list" where
  "inner xs = butlast (tl xs)"

text \<open>
  \<^verbatim>\<open>scipy.meshgrid(xs, ys)\<close> followed by \<^verbatim>\<open>flatten()\<close>: the grid has one row per element
  of \<open>ys\<close>; the first result repeats \<open>xs\<close> in every row, the second holds one element
  of \<open>ys\<close> per row.
\<close>

definition meshgrid :: "'a list \<Rightarrow> 'a list \<Rightarrow> 'a list \<times> 'a list" where
  "meshgrid xs ys =
     (concat (replicate (length ys) xs), concat (map (\<lambda>y. replicate (length xs) y) ys))"

text \<open>
  \<^verbatim>\<open>prf_data[3, keep_prf_data].min()\<close>: numpy's minimum raises on an empty array and
  propagates NaN.
\<close>

definition f_min :: "f64 \<Rightarrow> f64 \<Rightarrow> f64" where
  "f_min a b = (if a = NaN \<or> b = NaN then NaN else if f_less b a then b else a)"

definition np_min :: "f64 list \<Rightarrow> error + f64" where
  "np_min xs = (case xs of [] \<Rightarrow> Inl ValueError | x # rest \<Rightarrow> Inr (fold (\<lambda>b a. f_min a b) rest x))"

text \<open>
  The array \<^verbatim>\<open>padded_prf_data\<close> comes from \<^verbatim>\<open>scipy.empty\<close>, so an entry holds nothing
  defined until it is written: an entry is \<open>None\<close> until then.

  \<^verbatim>\<open>row[start : stop] = vals\<close> for \<open>0 \<le> start \<le> stop\<close>: the slice is cut at the end of the
  row; a value of the length of the slice is copied, a value of length 1 is repeated, and
  any other length raises. \<^verbatim>\<open>row[start :] = v\<close> fills the rest of the row with a scalar.
\<close>

definition set_slice :: "nat \<Rightarrow> nat \<Rightarrow> 'a list \<Rightarrow> 'a option list \<Rightarrow> error + 'a option list" where
  "set_slice start stop vals row =
     (let a = min start (length row); b = min stop (length row); n = b - a
      in if length vals = n then Inr (take a row @ map Some vals @ drop (a + n) row)
         else if length vals = 1 then Inr (take a row @ replicate n (Some (vals ! 0)) @ drop (a + n) row)
         else Inl ValueError)"

definition fill_from :: "nat \<Rightarrow> 'a \<Rightarrow> 'a option list \<Rightarrow> 'a option list" where
  "fill_from start v row = take start row @ replicate (length row - start) (Some v)"

text \<open>
  The state of the loop that fills in the positions of the synthetic points: rows 0 and 1
  of \<^verbatim>\<open>padded_prf_data\<close> and \<^verbatim>\<open>xy_padding_start\<close>. One step writes a block of x and of y
  values at the current position and moves the position past it.

  The fourth component is not a variable of the program: it counts, for every column,
  how many times the loop has assigned its x and y entries (the two assignments of a
  step go to the same slice), and nothing reads it.
\<close>

type_synonym fill_state = "f64 option list \<times> f64 option list \<times> nat \<times> nat list"

definition count_writes :: "nat \<Rightarrow> nat \<Rightarrow> nat list \<Rightarrow> nat list" where
  "count_writes start stop writes =
     (let a = min start (length writes); b = min stop (length writes)
      in take a writes @ map Suc (take (b - a) (drop a writes)) @ drop (a + (b - a)) writes)"

definition write_xy :: "f64 list \<Rightarrow> f64 list \<Rightarrow> fill_state \<Rightarrow> error + fill_state" where
  "write_xy x_vals y_vals st =
     (case st of (row0, row1, xy_padding_start, writes) \<Rightarrow>
        bind_e (set_slice xy_padding_start (xy_padding_start + length x_vals) x_vals row0)
          (\<lambda>row0'.
        bind_e (set_slice xy_padding_start (xy_padding_start + length x_vals) y_vals row1)
          (\<lambda>row1'.
        Inr (row0', row1', xy_padding_start + length x_vals,
             count_writes xy_padding_start (xy_padding_start + length x_vals) writes))))"

text \<open>\<^verbatim>\<open>for y_offset in [domain[2], domain[3] - y_padding]\<close>, for one \<^verbatim>\<open>x_offset\<close>.\<close>

fun fill_y ::
  "bool \<Rightarrow> f64 list \<times> f64 list \<Rightarrow> f64 list \<times> f64 list \<Rightarrow> f64 \<Rightarrow> f64 list
     \<Rightarrow> fill_state \<Rightarrow> error + fill_state" where
  "fill_y add_mid_x mid_x corner x_offset [] st = Inr st"
| "fill_y add_mid_x mid_x corner x_offset (y_offset # rest) st =
     bind_e (if add_mid_x
             then write_xy (fst mid_x) (map (\<lambda>v. f_add v y_offset) (snd mid_x)) st
             else Inr st) (\<lambda>st1.
     bind_e (write_xy (map (\<lambda>v. f_add v x_offset) (fst corner))
                      (map (\<lambda>v. f_add v y_offset) (snd corner)) st1) (\<lambda>st2.
     fill_y add_mid_x mid_x corner x_offset rest st2))"

text \<open>
  \<^verbatim>\<open>for x_offset in [domain[0], domain[1] - x_padding]\<close>; \<^verbatim>\<open>add_mid_x\<close> is true in the
  first iteration only.
\<close>

fun fill_x ::
  "bool \<Rightarrow> f64 list \<times> f64 list \<Rightarrow> f64 list \<times> f64 list \<Rightarrow> f64 list \<times> f64 list
     \<Rightarrow> f64 list \<Rightarrow> f64 list \<Rightarrow> fill_state \<Rightarrow> error + fill_state" where
  "fill_x add_mid_x mid_y mid_x corner y_offsets [] st = Inr st"
| "fill_x add_mid_x mid_y mid_x corner y_offsets (x_offset # rest) st =
     bind_e (write_xy (map (\<lambda>v. f_add v x_offset) (fst mid_y)) (snd mid_y) st) (\<lambda>st1.
     bind_e (fill_y add_mid_x mid_x corner x_offset y_offsets st1) (\<lambda>st2.
     fill_x False mid_y mid_x corner y_offsets rest st2))"

text \<open>The mask \<^verbatim>\<open>keep_prf_data\<close> and the columns \<^verbatim>\<open>prf_data[:, keep_prf_data]\<close>.\<close>

definition keep_prf_data :: "prf_range \<Rightarrow> sample list \<Rightarrow> bool list" where
  "keep_prf_data r prf_data =
     map (\<lambda>s. (f_less (Finite (- pr_x_offset r)) (sx s)
                \<and> f_less (sx s) (Finite (pr_width r - pr_x_offset r)))
             \<and> (f_less (Finite (- pr_y_offset r)) (sy s)
                \<and> f_less (sy s) (Finite (pr_height r - pr_y_offset r))))
         prf_data"

definition kept_columns :: "prf_range \<Rightarrow> sample list \<Rightarrow> sample list" where
  "kept_columns r prf_data = map fst (filter snd (zip prf_data (keep_prf_data r prf_data)))"

text \<open>
  \<^verbatim>\<open>middle_npoints = int(spline_pad_npoints / spline_pad_fraction)\<close>. Python divides an
  int by a float as floats: the int is converted to the nearest float
  (\<^verbatim>\<open>OverflowError\<close> when it is too large), a zero divisor raises \<^verbatim>\<open>ZeroDivisionError\<close>,
  and the quotient is rounded.
\<close>

definition py_float :: "int \<Rightarrow> error + real" where
  "py_float n = (case round_f64 (of_int n) of Finite a \<Rightarrow> Inr a | _ \<Rightarrow> Inl OverflowError)"

definition py_truediv :: "int \<Rightarrow> real \<Rightarrow> error + f64" where
  "py_truediv n b =
     bind_e (py_float n) (\<lambda>a.
     if b = 0 then Inl ZeroDivisionError else Inr (round_f64 (a / b)))"

definition middle_npoints :: "cmdline_args \<Rightarrow> error + int" where
  "middle_npoints cmdline_args =
     bind_e (py_truediv (spline_pad_npoints cmdline_args) (spline_pad_fraction cmdline_args))
       int_of_f64"

text \<open>
  \<^verbatim>\<open>x_padding\<close>, \<^verbatim>\<open>y_padding\<close> and \<^verbatim>\<open>domain\<close>: products, differences and sums of floats,
  each rounded.
\<close>

definition x_padding :: "cmdline_args \<Rightarrow> f64" where
  "x_padding cmdline_args =
     round_f64 (pr_width (args_prf_range cmdline_args) * spline_pad_fraction cmdline_args)"

definition y_padding :: "cmdline_args \<Rightarrow> f64" where
  "y_padding cmdline_args =
     round_f64 (pr_height (args_prf_range cmdline_args) * spline_pad_fraction cmdline_args)"

definition domain_of :: "cmdline_args \<Rightarrow> f64 \<times> f64 \<times> f64 \<times> f64" where
  "domain_of cmdline_args =
     (let r = args_prf_range cmdline_args
      in (fl_sub (Finite (- pr_x_offset r)) (x_padding cmdline_args),
          fl_add (fl_sub (Finite (pr_width r)) (Finite (pr_x_offset r))) (x_padding cmdline_args),
          fl_sub (Finite (- pr_y_offset r)) (y_padding cmdline_args),
          fl_add (fl_sub (Finite (pr_height r)) (Finite (pr_y_offset r)))
            (y_padding cmdline_args)))"

text \<open>
  The allocation of the (4, N) array with the \<^verbatim>\<open>middle_npoints\<close> computed before, the
  copy of the kept samples into its first columns and the value and error of the
  synthetic samples.
\<close>

definition allocate_padded ::
  "sample list \<Rightarrow> cmdline_args \<Rightarrow> int \<Rightarrow> error + f64 option array2" where
  "allocate_padded prf_data cmdline_args middle =
     (let kept = kept_columns (args_prf_range cmdline_args) prf_data;
          num_keep = length (filter id (keep_prf_data (args_prf_range cmdline_args) prf_data));
          ncols = int num_keep
                + 4 * spline_pad_npoints cmdline_args
                    * (middle + spline_pad_npoints cmdline_args)
      in if ncols < 0 then Inl ValueError
         else
           let empty_row = replicate (nat ncols) None in
           bind_e (set_slice 0 num_keep (map sx kept) empty_row) (\<lambda>row0.
           bind_e (set_slice 0 num_keep (map sy kept) empty_row) (\<lambda>row1.
           bind_e (set_slice 0 num_keep (map sval kept) empty_row) (\<lambda>row2.
           bind_e (set_slice 0 num_keep (map serr kept) empty_row) (\<lambda>row3.
           let row2' = fill_from num_keep (Finite 0) row2 in
           bind_e (np_min (map serr kept)) (\<lambda>min_err.
           Inr [row0, row1, row2',
                fill_from num_keep (f_div min_err (Finite (real num_keep))) row3]))))))"

text \<open>
  The grids of synthetic points and the loop that writes them; the result is the state
  at the end of the loop. The synthetic positions are array elements: the differences
  and sums they are made of are exact.
\<close>

definition fill_padding ::
  "nat \<Rightarrow> cmdline_args \<Rightarrow> int \<Rightarrow> f64 option array2 \<Rightarrow> error + fill_state" where
  "fill_padding num_keep cmdline_args middle padded_prf_data =
     (let r = args_prf_range cmdline_args;
          domain = domain_of cmdline_args;
          npoints = spline_pad_npoints cmdline_args
      in bind_e (linspace (Finite 0) (x_padding cmdline_args) npoints) (\<lambda>pad_x.
         bind_e (linspace (Finite 0) (y_padding cmdline_args) npoints) (\<lambda>pad_y.
         bind_e (linspace (Finite (- pr_x_offset r)) (Finite (pr_width r - pr_x_offset r))
                   (middle + 2)) (\<lambda>across_x.
         bind_e (linspace (Finite (- pr_y_offset r)) (Finite (pr_height r - pr_y_offset r))
                   (middle + 2)) (\<lambda>across_y.
         let corner = meshgrid pad_x pad_y;
             mid_x = meshgrid (inner across_x) pad_y;
             mid_y = meshgrid pad_x (inner across_y)
         in fill_x True mid_y mid_x corner
              [fst (snd (snd domain)),
               f_sub (snd (snd (snd domain))) (y_padding cmdline_args)]
              [fst domain, f_sub (fst (snd domain)) (x_padding cmdline_args)]
              (padded_prf_data ! 0, padded_prf_data ! 1, num_keep,
               replicate (length (padded_prf_data ! 0)) 0))))))"

text \<open>
  \<^verbatim>\<open>pad_prf_data\<close>: \<^verbatim>\<open>middle_npoints\<close>, the allocation, the fill loop, and the result
  \<^verbatim>\<open>(padded_prf_data, domain)\<close>.
\<close>

definition pad_prf_data ::
  "sample list \<Rightarrow> cmdline_args \<Rightarrow> error + f64 option array2 \<times> (f64 \<times> f64 \<times> f64 \<times> f64)" where
  "pad_prf_data prf_data cmdline_args =
     bind_e (middle_npoints cmdline_args) (\<lambda>middle.
     bind_e (allocate_padded prf_data cmdline_args middle) (\<lambda>padded_prf_data.
     bind_e (fill_padding
               (length (filter id (keep_prf_data (args_prf_range cmdline_args) prf_data)))
               cmdline_args middle padded_prf_data) (\<lambda>st.
     Inr ([fst st, fst (snd st), padded_prf_data ! 2, padded_prf_data ! 3],
          domain_of cmdline_args))))"
text \<open>
  In the words of the specification: a sample lies strictly inside the unpadded rectangle
  of \<^verbatim>\<open>prf_range\<close>; an infinite or NaN offset is never inside.
\<close>

definition strictly_inside :: "prf_range \<Rightarrow> sample \<Rightarrow> bool" where
  "strictly_inside r s \<longleftrightarrow>
     (\<exists>x y. sx s = Finite x \<and> sy s = Finite y
        \<and> - pr_x_offset r < x \<and> x < pr_width r - pr_x_offset r
        \<and> - pr_y_offset r < y \<and> y < pr_height r - pr_y_offset r)"

text \<open>
  The number of synthetic points that \<^verbatim>\<open>pad_prf_data\<close> allocates (none when
  \<^verbatim>\<open>middle_npoints\<close> raises).
\<close>

definition synthetic_count :: "cmdline_args \<Rightarrow> int \<Rightarrow> int" where
  "synthetic_count cmdline_args middle =
     4 * spline_pad_npoints cmdline_args * (middle + spline_pad_npoints cmdline_args)"




text \<open>
  What the caller reads from an array whose unwritten entries hold whatever the memory
  held before, \<open>garbage\<close>.
\<close>

definition contents :: "(nat \<Rightarrow> nat \<Rightarrow> f64) \<Rightarrow> f64 option array2 \<Rightarrow> f64 array2" where
  "contents garbage a =
     map (\<lambda>j. map (\<lambda>i. case a ! j ! i of Some v \<Rightarrow> v | None \<Rightarrow> garbage j i)
                 [0..<length (a ! j)])
         [0..<length a]"
section \<open>Inputs used in the examples\<close>

definition src_half :: source where
  "src_half = \<lparr>src_id = ''00000'', src_x = 21 / 2, src_y = 10, src_flux = Finite 100,
     src_bg = Finite 5, src_bg_err = Finite 1, src_bg_npix = 10, src_enabled = Finite 1\<rparr>"

definition default_range :: prf_range where
  "default_range = \<lparr>pr_width = 11, pr_height = 8, pr_x_offset = 4, pr_y_offset = 4\<rparr>"

text \<open>
  Two sources half a pixel apart with a one-pixel extraction rectangle, and the isolated
  source of the specification's scenario.
\<close>

definition src_a :: source where
  "src_a = \<lparr>src_id = ''00000'', src_x = 1, src_y = 1, src_flux = Finite 100,
     src_bg = Finite 5, src_bg_err = Finite 1, src_bg_npix = 10, src_enabled = Finite 1\<rparr>"

definition src_b :: source where
  "src_b = \<lparr>src_id = ''00001'', src_x = 3 / 2, src_y = 1, src_flux = Finite 50,
     src_bg = Finite 2, src_bg_err = Finite 1, src_bg_npix = 10, src_enabled = Finite 1\<rparr>"

definition small_range :: prf_range where
  "small_range = \<lparr>pr_width = 1, pr_height = 1, pr_x_offset = 1 / 2, pr_y_offset = 1 / 2\<rparr>"

definition src_iso :: source where
  "src_iso = \<lparr>src_id = ''00000'', src_x = 10, src_y = 10, src_flux = Finite 100,
     src_bg = Finite 5, src_bg_err = Finite 1, src_bg_npix = 10, src_enabled = Finite 1\<rparr>"


definition sample_out :: sample where
  "sample_out = \<lparr>sx = Finite 20, sy = Finite 0, sval = Finite 1, serr = Finite (1 / 100)\<rparr>"

definition pad_args :: cmdline_args where
  "pad_args = \<lparr>args_prf_range = default_range, spline_pad_fraction = 1 / 2,
     spline_pad_npoints = 1\<rparr>"

definition negative_pad_args :: cmdline_args where
  "negative_pad_args = \<lparr>args_prf_range = default_range, spline_pad_fraction = - 1,
     spline_pad_npoints = 1\<rparr>"

definition tiny_pad_args :: cmdline_args where
  "tiny_pad_args = \<lparr>args_prf_range = default_range, spline_pad_fraction = 1 / 2 ^ 60,
     spline_pad_npoints = 0\<rparr>"

definition default_pad_args :: cmdline_args where
  "default_pad_args = \<lparr>args_prf_range = default_range,
     spline_pad_fraction = 5764607523034235 / 2 ^ 59, spline_pad_npoints = 100\<rparr>"




section \<open>Properties of the rounding\<close>

subsection \<open>Rounding to an integer\<close>

lemma rhe_of_int [simp]: "round_half_even (of_int n) = n"
  by (simp add: round_half_even_def)

lemma rhe_zero [simp]: "round_half_even 0 = 0"
  using rhe_of_int [of 0] by simp

lemma rhe_lower: "\<lfloor>x\<rfloor> \<le> round_half_even x"
  by (simp add: round_half_even_def Let_def)

lemma rhe_upper: "round_half_even x \<le> \<lfloor>x\<rfloor> + 1"
  by (simp add: round_half_even_def Let_def)

lemma rhe_near: "\<bar>x - of_int n\<bar> < 1 / 2 \<Longrightarrow> round_half_even x = n"
proof -
  assume h: "\<bar>x - of_int n\<bar> < 1 / 2"
  show ?thesis
  proof (cases "of_int n \<le> x")
    case True
    with h have "\<lfloor>x\<rfloor> = n" by (intro floor_unique) linarith+
    with h True show ?thesis by (simp add: round_half_even_def Let_def)
  next
    case False
    with h have "\<lfloor>x\<rfloor> = n - 1" by (intro floor_unique) (simp, linarith+)
    with h False show ?thesis by (simp add: round_half_even_def Let_def)
  qed
qed

lemma rhe_mono: "x \<le> y \<Longrightarrow> round_half_even x \<le> round_half_even y"
proof -
  assume xy: "x \<le> y"
  then have "\<lfloor>x\<rfloor> \<le> \<lfloor>y\<rfloor>" by (rule floor_mono)
  then consider "\<lfloor>x\<rfloor> < \<lfloor>y\<rfloor>" | "\<lfloor>x\<rfloor> = \<lfloor>y\<rfloor>" by linarith
  then show ?thesis
  proof cases
    case 1
    have "round_half_even x \<le> \<lfloor>x\<rfloor> + 1" by (rule rhe_upper)
    also have "\<dots> \<le> \<lfloor>y\<rfloor>" using 1 by simp
    also have "\<dots> \<le> round_half_even y" by (rule rhe_lower)
    finally show ?thesis .
  next
    case 2
    with xy show ?thesis
      by (auto simp: round_half_even_def Let_def)
  qed
qed

lemma rhe_minus: "round_half_even (- x) = - round_half_even x"
proof (cases "x \<in> \<int>")
  case True
  then obtain n where "x = of_int n" by (auto elim: Ints_cases)
  then have "- x = of_int (- n)" by simp
  then show ?thesis unfolding \<open>x = of_int n\<close> by (simp only: rhe_of_int)
next
  case False
  from False have ne: "x \<noteq> of_int \<lfloor>x\<rfloor>" by (metis Ints_of_int)
  then have f: "\<lfloor>- x\<rfloor> = - \<lfloor>x\<rfloor> - 1"
    by (simp add: floor_minus ceiling_altdef)
  have lt: "of_int \<lfloor>x\<rfloor> < x" using ne of_int_floor_le [of x] by linarith
  show ?thesis
    unfolding round_half_even_def Let_def f
    using lt by (auto split: if_splits)
qed

subsection \<open>The spacing of the floats around a number\<close>

lemma spacing_exp_minus [simp]: "spacing_exp (- x) = spacing_exp x"
  by (simp add: spacing_exp_def)

lemma spacing_exp_eq0:
  assumes "\<bar>x\<bar> * 2 ^ tiny_exp < 2 ^ 53"
  shows "spacing_exp x = 0"
proof -
  from assms have "\<lfloor>\<bar>x\<bar> * 2 ^ tiny_exp\<rfloor> < 2 ^ 53"
    by (simp add: floor_less_iff)
  then have "bitlen \<lfloor>\<bar>x\<bar> * 2 ^ tiny_exp\<rfloor> \<le> 53"
    by (simp add: bitlen_le_iff_power)
  then show ?thesis by (simp add: spacing_exp_def)
qed

lemma spacing_exp_eq:
  assumes "2 ^ (52 + k) \<le> \<bar>x\<bar> * 2 ^ tiny_exp" and "\<bar>x\<bar> * 2 ^ tiny_exp < 2 ^ (53 + k)"
  shows "spacing_exp x = k"
proof -
  let ?m = "\<lfloor>\<bar>x\<bar> * 2 ^ tiny_exp\<rfloor>"
  from assms(1) have lo: "2 ^ (52 + k) \<le> ?m" by (simp add: le_floor_iff)
  from assms(2) have hi: "?m < 2 ^ (53 + k)" by (simp add: floor_less_iff)
  have n: "nat (int (53 + k)) = 53 + k" by simp
  from hi have "bitlen ?m \<le> int (53 + k)"
    unfolding bitlen_le_iff_power n by simp
  moreover from lo have "int (53 + k) \<le> bitlen ?m"
    unfolding bitlen_ge_iff_power n by simp
  ultimately have "bitlen ?m = int (53 + k)" by simp
  then show ?thesis by (simp add: spacing_exp_def)
qed

lemma spacing_exp_cases:
  "(spacing_exp x = 0 \<and> \<bar>x\<bar> * 2 ^ tiny_exp < 2 ^ 53)
   \<or> (2 ^ (52 + spacing_exp x) \<le> \<bar>x\<bar> * 2 ^ tiny_exp
      \<and> \<bar>x\<bar> * 2 ^ tiny_exp < 2 ^ (53 + spacing_exp x))"
proof (cases "\<bar>x\<bar> * 2 ^ tiny_exp < 2 ^ 53")
  case True
  then show ?thesis by (simp add: spacing_exp_eq0)
next
  case False
  let ?m = "\<lfloor>\<bar>x\<bar> * 2 ^ tiny_exp\<rfloor>"
  from False have m: "2 ^ 53 \<le> ?m" by (simp add: le_floor_iff)
  then have pos: "0 < ?m" by (smt (verit) zero_less_power)
  from m have b: "54 \<le> bitlen ?m" by (simp add: bitlen_ge_iff_power)
  then have k: "int (spacing_exp x) = bitlen ?m - 53" by (simp add: spacing_exp_def)
  from bitlen_bounds [OF pos]
  have "2 ^ nat (bitlen ?m - 1) \<le> ?m" "?m < 2 ^ nat (bitlen ?m)" by simp_all
  moreover from k b have "nat (bitlen ?m - 1) = 52 + spacing_exp x"
    "nat (bitlen ?m) = 53 + spacing_exp x" by linarith+
  ultimately have "2 ^ (52 + spacing_exp x) \<le> ?m" "?m < 2 ^ (53 + spacing_exp x)"
    by simp_all
  then have "2 ^ (52 + spacing_exp x) \<le> \<bar>x\<bar> * 2 ^ tiny_exp"
    "\<bar>x\<bar> * 2 ^ tiny_exp < 2 ^ (53 + spacing_exp x)"
    by (simp_all add: le_floor_iff floor_less_iff)
  then show ?thesis by simp
qed

lemma spacing_exp_mono:
  assumes "\<bar>x\<bar> \<le> \<bar>y\<bar>"
  shows "spacing_exp x \<le> spacing_exp y"
proof -
  from assms have "\<lfloor>\<bar>x\<bar> * 2 ^ tiny_exp\<rfloor> \<le> \<lfloor>\<bar>y\<bar> * 2 ^ tiny_exp\<rfloor>"
    by (intro floor_mono) simp
  then have "bitlen \<lfloor>\<bar>x\<bar> * 2 ^ tiny_exp\<rfloor> \<le> bitlen \<lfloor>\<bar>y\<bar> * 2 ^ tiny_exp\<rfloor>"
    by (simp add: bitlen_def floorlog_mono)
  then show ?thesis by (simp add: spacing_exp_def)
qed

subsection \<open>Rounding to the spacing\<close>

lemma quantize_mono: "X \<le> Y \<Longrightarrow> quantize k X \<le> quantize k Y"
  by (simp add: quantize_def rhe_mono divide_right_mono)

lemma quantize_minus: "quantize k (- X) = - quantize k X"
  by (simp add: quantize_def rhe_minus)

lemma quantize_fix: "quantize k (of_int n * 2 ^ k) = of_int n * 2 ^ k"
  by (simp add: quantize_def)

lemma quantize_pow: "k \<le> j \<Longrightarrow> quantize k (2 ^ j) = 2 ^ j"
proof -
  assume "k \<le> j"
  then have "(2::real) ^ j = of_int (2 ^ (j - k)) * 2 ^ k"
    by (simp flip: power_add)
  then show ?thesis by (simp only: quantize_fix)
qed

lemma quantize_zero [simp]: "quantize k 0 = 0"
  by (simp add: quantize_def)

lemma quantize_nonneg: "0 \<le> X \<Longrightarrow> 0 \<le> quantize k X"
  using quantize_mono [of 0 X k] by simp

lemma round_real_minus: "round_real (- x) = - round_real x"
  by (simp add: round_real_def quantize_minus)

lemma round_real_zero [simp]: "round_real 0 = 0"
  by (simp add: round_real_def)

lemma round_real_nonneg: "0 \<le> x \<Longrightarrow> 0 \<le> round_real x"
  by (simp add: round_real_def quantize_nonneg)

lemma round_real_nonpos: "x \<le> 0 \<Longrightarrow> round_real x \<le> 0"
  using round_real_nonneg [of "- x"] by (simp add: round_real_minus)

lemma round_real_mono_nonneg:
  assumes "0 \<le> x" and "x \<le> y"
  shows "round_real x \<le> round_real y"
proof -
  let ?X = "x * 2 ^ tiny_exp" and ?Y = "y * 2 ^ tiny_exp"
  let ?k = "spacing_exp x" and ?l = "spacing_exp y"
  from assms have XY: "?X \<le> ?Y" by simp
  from assms have abs: "\<bar>x\<bar> = x" "\<bar>y\<bar> = y" by simp_all
  from assms have kl: "?k \<le> ?l" by (intro spacing_exp_mono) simp
  have "quantize ?k ?X \<le> quantize ?l ?Y"
  proof (cases "?k = ?l")
    case True
    with XY show ?thesis by (simp add: quantize_mono)
  next
    case False
    with kl have lt: "?k < ?l" by simp
    let ?B = "(2::real) ^ (52 + ?l)"
    from spacing_exp_cases [of y] lt have BY: "?B \<le> ?Y" by (auto simp: abs)
    have "?X < 2 ^ (53 + ?k)"
      using spacing_exp_cases [of x] by (auto simp: abs)
    also have "(2::real) ^ (53 + ?k) \<le> ?B"
      using lt by (intro power_increasing) simp_all
    finally have XB: "?X \<le> ?B" by simp
    have "quantize ?k ?X \<le> quantize ?k ?B" using XB by (rule quantize_mono)
    also have "\<dots> = ?B" by (intro quantize_pow) (use lt in simp)
    also have "\<dots> = quantize ?l ?B" by (intro quantize_pow [symmetric]) simp
    also have "\<dots> \<le> quantize ?l ?Y" using BY by (rule quantize_mono)
    finally show ?thesis .
  qed
  then show ?thesis by (simp add: round_real_def divide_right_mono)
qed

lemma round_real_mono:
  assumes "x \<le> y"
  shows "round_real x \<le> round_real y"
proof -
  consider "0 \<le> x" | "x < 0" "0 \<le> y" | "y < 0" by linarith
  then show ?thesis
  proof cases
    case 1
    with assms show ?thesis by (intro round_real_mono_nonneg)
  next
    case 2
    then have "round_real x \<le> 0" "0 \<le> round_real y"
      by (simp_all add: round_real_nonpos round_real_nonneg)
    then show ?thesis by simp
  next
    case 3
    with assms have "round_real (- y) \<le> round_real (- x)"
      by (intro round_real_mono_nonneg) simp_all
    then show ?thesis by (simp add: round_real_minus)
  qed
qed

text \<open>Values with a significand of at most 53 bits are not changed.\<close>

lemma round_real_fix_scaled:
  assumes X: "x * 2 ^ tiny_exp = of_int m * 2 ^ j" and m: "\<bar>m\<bar> \<le> 2 ^ 53"
  shows "round_real x = x"
proof -
  let ?k = "spacing_exp x"
  have "\<bar>x * 2 ^ tiny_exp\<bar> = \<bar>of_int m * (2::real) ^ j\<bar>" by (simp only: X)
  then have absX: "\<bar>x\<bar> * 2 ^ tiny_exp = of_int \<bar>m\<bar> * 2 ^ j"
    by (simp add: abs_mult)
  have "\<exists>n. x * 2 ^ tiny_exp = of_int n * 2 ^ ?k"
  proof (cases "?k \<le> j")
    case True
    then have "of_int m * (2::real) ^ j = of_int (m * 2 ^ (j - ?k)) * 2 ^ ?k"
      by (simp flip: power_add)
    with X show ?thesis by metis
  next
    case False
    then have k0: "?k \<noteq> 0" by simp
    with spacing_exp_cases [of x] have lo: "2 ^ (52 + ?k) \<le> of_int \<bar>m\<bar> * (2::real) ^ j"
      by (auto simp: absX)
    from m have mr: "real_of_int \<bar>m\<bar> \<le> 2 ^ 53"
      by (metis of_int_le_iff of_int_numeral of_int_power)
    then have "of_int \<bar>m\<bar> * (2::real) ^ j \<le> 2 ^ 53 * 2 ^ j"
      by (intro mult_right_mono) simp_all
    with lo have "(2::real) ^ (52 + ?k) \<le> 2 ^ 53 * 2 ^ j" by (rule order_trans)
    also have "\<dots> = 2 ^ (53 + j)" by (simp only: power_add)
    finally have "52 + ?k \<le> 53 + j" by (simp only: power_increasing_iff one_less_numeral_iff num.simps semiring_norm)
    with False have kj: "?k = j + 1" by simp
    have "(2::real) ^ 53 * 2 ^ j = 2 ^ (52 + ?k)"
      unfolding kj by (simp only: power_add power_one_right) simp
    with lo have "(2::real) ^ 53 * 2 ^ j \<le> of_int \<bar>m\<bar> * 2 ^ j" by simp
    then have "(2::real) ^ 53 \<le> of_int \<bar>m\<bar>"
      by (simp only: mult_le_cancel_right) (simp add: not_less)
    with mr have "real_of_int \<bar>m\<bar> = 2 ^ 53" by (rule order_antisym)
    then have "\<bar>m\<bar> = 2 ^ 53"
      by (metis of_int_eq_iff of_int_numeral of_int_power)
    then have "m = 2 ^ 53 \<or> m = - (2 ^ 53)" by linarith
    then have "m = 2 * (m div 2)" by auto
    then have "real_of_int m = 2 * of_int (m div 2)"
      by (metis of_int_mult of_int_numeral)
    then have "of_int m * (2::real) ^ j = of_int (m div 2) * 2 ^ ?k"
      by (simp add: kj)
    with X show ?thesis by metis
  qed
  then obtain n where n: "x * 2 ^ tiny_exp = of_int n * 2 ^ ?k" ..
  have "round_real x = (of_int n * 2 ^ ?k) / 2 ^ tiny_exp"
    unfolding round_real_def n quantize_fix ..
  also have "\<dots> = x" unfolding n [symmetric] by simp
  finally show ?thesis .
qed

lemma round_real_dyadic:
  assumes "\<bar>m\<bar> \<le> 2 ^ 53" and "d \<le> tiny_exp"
  shows "round_real (of_int m / 2 ^ d) = of_int m / 2 ^ d"
proof (rule round_real_fix_scaled [OF _ assms(1)])
  from assms(2) have "(2::real) ^ tiny_exp = 2 ^ (tiny_exp - d) * 2 ^ d"
    by (simp flip: power_add)
  then show "of_int m / 2 ^ d * 2 ^ tiny_exp = of_int m * (2::real) ^ (tiny_exp - d)"
    by simp
qed

lemma round_real_int:
  assumes "\<bar>m\<bar> \<le> 2 ^ 53"
  shows "round_real (of_int m) = of_int m"
  using round_real_dyadic [OF assms, of 0] by simp

lemma round_real_near:
  assumes "spacing_exp x = k" and "\<bar>x * 2 ^ tiny_exp / 2 ^ k - of_int n\<bar> < 1 / 2"
  shows "round_real x = of_int n * 2 ^ k / 2 ^ tiny_exp"
  using assms by (simp add: round_real_def quantize_def rhe_near)

subsection \<open>The float nearest to a number\<close>

lemma overflow_bound_pos: "0 < overflow_bound"
  by (simp add: overflow_bound_def)

lemma small_below_overflow: "\<bar>x\<bar> \<le> 2 ^ 53 \<Longrightarrow> \<bar>x\<bar> < overflow_bound"
proof -
  assume "\<bar>x\<bar> \<le> 2 ^ 53"
  also have "(2::real) ^ 53 < 2 ^ 1024" by (intro power_strict_increasing) simp_all
  finally show ?thesis by (simp only: overflow_bound_def)
qed

lemma round_f64_fix:
  assumes "round_real x = x" and "\<bar>x\<bar> < overflow_bound"
  shows "round_f64 x = Finite x"
proof -
  from assms(2) have "\<not> overflow_bound \<le> x" "\<not> x \<le> - overflow_bound" by linarith+
  with assms(1) show ?thesis by (simp add: round_f64_def Let_def)
qed

lemma round_f64_dyadic:
  assumes "\<bar>m\<bar> \<le> 2 ^ 53" and "d \<le> 1074"
  shows "round_f64 (of_int m / 2 ^ d) = Finite (of_int m / 2 ^ d)"
proof (rule round_f64_fix)
  show "round_real (of_int m / 2 ^ d) = of_int m / 2 ^ d"
    using assms by (intro round_real_dyadic) (simp_all add: tiny_exp_def)
  from assms(1) have mr: "\<bar>real_of_int m\<bar> \<le> 2 ^ 53"
    by (metis of_int_abs of_int_le_iff of_int_numeral of_int_power)
  have "\<bar>real_of_int m / 2 ^ d\<bar> \<le> \<bar>real_of_int m\<bar>"
    by (simp add: divide_le_eq mult_le_cancel_left1)
  from this mr have "\<bar>real_of_int m / 2 ^ d\<bar> \<le> 2 ^ 53" by (rule order_trans)
  then show "\<bar>real_of_int m / 2 ^ d\<bar> < overflow_bound" by (rule small_below_overflow)
qed

lemma round_f64_int:
  assumes "\<bar>m\<bar> \<le> 2 ^ 53"
  shows "round_f64 (of_int m) = Finite (of_int m)"
  using round_f64_dyadic [OF assms, of 0] by simp

lemma round_f64_numeral:
  "(numeral n :: int) \<le> 2 ^ 53 \<Longrightarrow> round_f64 (numeral n) = Finite (numeral n)"
  using round_f64_int [of "numeral n"] by simp

lemma round_f64_numeral_half:
  "(numeral n :: int) \<le> 2 ^ 53 \<Longrightarrow> round_f64 (numeral n / 2) = Finite (numeral n / 2)"
  using round_f64_dyadic [of "numeral n" 1] by simp

lemma round_f64_neg_numeral:
  "(numeral n :: int) \<le> 2 ^ 53 \<Longrightarrow> round_f64 (- numeral n) = Finite (- numeral n)"
  using round_f64_int [of "- numeral n"] by simp

lemma round_f64_zero: "round_f64 0 = Finite 0"
  using round_f64_int [of 0] by simp

lemma round_f64_one: "round_f64 1 = Finite 1"
  using round_f64_int [of 1] by simp

lemma round_f64_one_half: "round_f64 (1 / 2) = Finite (1 / 2)"
  using round_f64_dyadic [of 1 1] by simp

lemmas round_f64_simps =
  round_f64_numeral round_f64_numeral_half round_f64_neg_numeral round_f64_zero
  round_f64_one round_f64_one_half

lemma round_f64_Finite:
  assumes "round_f64 x = Finite y"
  shows "y = round_real x"
  using assms by (simp add: round_f64_def Let_def split: if_splits)

lemma round_f64_not_NaN [simp]: "round_f64 x \<noteq> NaN"
  by (simp add: round_f64_def Let_def)

lemma round_f64_mono:
  assumes "x \<le> y"
  shows "f_le (round_f64 x) (round_f64 y)"
  using round_real_mono [OF assms] overflow_bound_pos
  by (auto simp: round_f64_def Let_def f_le_def)


lemma fl_add_Finite [simp]: "fl_add (Finite a) (Finite b) = round_f64 (a + b)"
  by (simp add: fl_add_def)

lemma fl_sub_Finite [simp]: "fl_sub (Finite a) (Finite b) = round_f64 (a - b)"
  by (simp add: fl_sub_def fl_add_def)

lemma py_int_of_int [simp]: "py_int (of_int n) = n"
  by (simp add: py_int_def)

lemma py_int_of_nat [simp]: "py_int (real n) = int n"
  using py_int_of_int [of "int n"] by simp

lemma py_int_zero [simp]: "py_int 0 = 0"
  by (simp add: py_int_def)

lemma py_int_one [simp]: "py_int 1 = 1"
  by (simp add: py_int_def)

lemma py_int_numeral [simp]: "py_int (numeral n) = numeral n"
  by (simp add: py_int_def)

text \<open>
  Between two integers of magnitude at most 2^53 a number stays when it is rounded.
\<close>

lemma round_real_ge_int:
  assumes "of_int n \<le> x" and "\<bar>n\<bar> \<le> 2 ^ 53"
  shows "of_int n \<le> round_real x"
  using round_real_mono [OF assms(1)] round_real_int [OF assms(2)] by simp

lemma round_real_le_int:
  assumes "x \<le> of_int n" and "\<bar>n\<bar> \<le> 2 ^ 53"
  shows "round_real x \<le> of_int n"
  using round_real_mono [OF assms(1)] round_real_int [OF assms(2)] by simp

subsection \<open>The bounds of a rectangle\<close>

lemma lower_bound_nonneg:
  "int_of_f64 (py_max (f_floor d) (Finite 0)) = Inr lo \<Longrightarrow> 0 \<le> lo"
  by (cases d) (auto simp: py_max_def split: if_splits)

lemma upper_bound_in_image:
  "int_of_f64 (py_min (f_ceil e) (Finite (real n))) = Inr hi \<Longrightarrow> hi \<le> int n"
  by (cases e) (auto simp: py_min_def split: if_splits)

lemma bind_e_Inr: "bind_e m f = Inr v \<longleftrightarrow> (\<exists>u. m = Inr u \<and> f u = Inr v)"
  by (cases m) (simp_all add: bind_e_def)

lemma bind_e_simps: "bind_e (Inr u) f = f u" "bind_e (Inl e) f = Inl e"
  by (simp_all add: bind_e_def)

lemma bounds_Inr:
  "bounds r res s = Inr (lo_x, hi_x, lo_y, hi_y) \<longleftrightarrow>
     min_x s r = Inr lo_x \<and> max_x s r res = Inr hi_x \<and>
     min_y s r = Inr lo_y \<and> max_y s r res = Inr hi_y"
  by (auto simp: bounds_def bind_e_Inr)

lemma bounds_in_image:
  assumes "bounds r res s = Inr (lo_x, hi_x, lo_y, hi_y)"
  shows "0 \<le> lo_x" and "0 \<le> lo_y" and "hi_x \<le> int (snd res)" and "hi_y \<le> int (fst res)"
  using assms unfolding bounds_Inr min_x_def max_x_def min_y_def max_y_def
  by (blast intro: lower_bound_nonneg upper_bound_in_image)+

text \<open>
  The bounds of one axis without clipping: the floor of the rounded lower edge and the
  ceiling of the rounded upper edge.
\<close>

lemma unclipped_bounds:
  assumes "unclipped x off w n"
  shows "\<exists>a b. round_f64 (x - off) = Finite a \<and> round_f64 (a + w) = Finite b
    \<and> int_of_f64 (py_max (f_floor (fl_sub (Finite x) (Finite off))) (Finite 0)) = Inr \<lfloor>a\<rfloor>
    \<and> int_of_f64 (py_min (f_ceil (fl_add (fl_sub (Finite x) (Finite off)) (Finite w)))
         (Finite (real n))) = Inr \<lceil>b\<rceil>"
proof -
  from assms obtain a where a: "round_f64 (x - off) = Finite a"
    by (auto simp: unclipped_def split: f64.splits)
  with assms obtain b where b: "round_f64 (a + w) = Finite b"
    by (auto simp: unclipped_def split: f64.splits)
  from assms a b have in_img: "0 \<le> \<lfloor>a\<rfloor>" "\<lceil>b\<rceil> \<le> int n"
    by (simp_all add: unclipped_def)
  then have "\<not> real_of_int \<lfloor>a\<rfloor> < 0" "\<not> real n < real_of_int \<lceil>b\<rceil>"
    by linarith+
  with a b show ?thesis
    by (simp add: py_max_def py_min_def)
qed
section \<open>The size of the extraction rectangle\<close>

lemma round_f64_half:
  assumes "\<bar>m\<bar> \<le> 2 ^ 53"
  shows "round_f64 (of_int m / 2) = Finite (of_int m / 2)"
  using round_f64_dyadic [OF assms, of 1] by simp

lemma axis_whole:
  assumes a: "round_f64 t = Finite a" and b: "round_f64 (a + w) = Finite b"
    and t: "t \<in> \<int>" and w: "w \<in> \<int>" and small: "\<bar>t\<bar> + \<bar>w\<bar> \<le> 2 ^ 52"
  shows "of_int (\<lceil>b\<rceil> - \<lfloor>a\<rfloor>) = w"
proof -
  from t w obtain p q :: int where p: "t = of_int p" and q: "w = of_int q"
    by (auto elim!: Ints_cases)
  from small have "\<bar>real_of_int p\<bar> + \<bar>real_of_int q\<bar> \<le> 4503599627370496"
    unfolding p q by simp
  then have "\<bar>p\<bar> \<le> 9007199254740992" "\<bar>p + q\<bar> \<le> 9007199254740992" by linarith+
  then have "\<bar>p\<bar> \<le> 2 ^ 53" "\<bar>p + q\<bar> \<le> 2 ^ 53" by simp_all
  then have "round_f64 (of_int p) = Finite (of_int p)"
    "round_f64 (of_int (p + q)) = Finite (of_int (p + q))"
    by (simp_all only: round_f64_int)
  with a b have "a = of_int p" "b = of_int (p + q)"
    by (simp_all add: p q)
  then show ?thesis by (simp add: q)
qed

lemma axis_range:
  assumes a: "round_f64 t = Finite a" and b: "round_f64 (a + w) = Finite b"
    and small: "\<bar>t\<bar> + \<bar>w\<bar> \<le> 2 ^ 52"
  shows "\<lfloor>w\<rfloor> \<le> \<lceil>b\<rceil> - \<lfloor>a\<rfloor>" and "\<lceil>b\<rceil> - \<lfloor>a\<rfloor> \<le> \<lceil>w\<rceil> + 1"
proof -
  from a have ar: "a = round_real t" by (rule round_f64_Finite)
  from b have br: "b = round_real (a + w)" by (rule round_f64_Finite)
  from small have small': "\<bar>t\<bar> + \<bar>w\<bar> \<le> 4503599627370496" by simp
  then have "\<bar>\<lfloor>t\<rfloor>\<bar> \<le> 9007199254740992" "\<bar>\<lceil>t\<rceil>\<bar> \<le> 9007199254740992" by linarith+
  then have t53: "\<bar>\<lfloor>t\<rfloor>\<bar> \<le> 2 ^ 53" "\<bar>\<lceil>t\<rceil>\<bar> \<le> 2 ^ 53" by simp_all
  have "of_int \<lfloor>t\<rfloor> \<le> round_real t"
    by (rule round_real_ge_int [OF _ t53(1)]) simp
  moreover have "round_real t \<le> of_int \<lceil>t\<rceil>"
    by (rule round_real_le_int [OF _ t53(2)]) simp
  ultimately have abound: "\<bar>a\<bar> \<le> \<bar>t\<bar> + 1" unfolding ar by linarith
  let ?L = "\<lfloor>a\<rfloor> + \<lfloor>w\<rfloor>" and ?U = "\<lfloor>a\<rfloor> + 1 + \<lceil>w\<rceil>"
  from abound small' have "\<bar>?L\<bar> \<le> 9007199254740992" "\<bar>?U\<bar> \<le> 9007199254740992"
    by linarith+
  then have L53: "\<bar>?L\<bar> \<le> 2 ^ 53" and U53: "\<bar>?U\<bar> \<le> 2 ^ 53" by simp_all
  have "of_int ?L \<le> a + w" by linarith
  then have "of_int ?L \<le> b" unfolding br by (rule round_real_ge_int [OF _ L53])
  then show "\<lfloor>w\<rfloor> \<le> \<lceil>b\<rceil> - \<lfloor>a\<rfloor>" by linarith
  have "a + w \<le> of_int ?U" by linarith
  then have "b \<le> of_int ?U" unfolding br by (rule round_real_le_int [OF _ U53])
  then show "\<lceil>b\<rceil> - \<lfloor>a\<rfloor> \<le> \<lceil>w\<rceil> + 1" by linarith
qed

text \<open>
  C9 (as stated): without clipping, \<^verbatim>\<open>max_x - min_x\<close> equals the width of
  \<^verbatim>\<open>prf_range\<close>. This fails for a source at x = 10.5 with the default range
  (11, 8, 4, 4) in a 100 x 100 image: the bounds are 6 and 18, twelve columns.
\<close>

theorem C9_rect_width_counterexample:
  "unclipped_x src_half default_range (100, 100) \<and>
   min_x src_half default_range = Inr 6 \<and>
   max_x src_half default_range (100, 100) = Inr 18 \<and>
   real_of_int (18 - 6) \<noteq> pr_width default_range"
proof -
  have r: "round_f64 (13 / 2) = Finite (13 / 2)" "round_f64 (35 / 2) = Finite (35 / 2)"
    using round_f64_half [of 13] round_f64_half [of 35] by simp_all
  have f: "\<lfloor>13 / 2 :: real\<rfloor> = 6" by linarith
  have c: "\<lceil>35 / 2 :: real\<rceil> = 18" by linarith
  show ?thesis
    by (simp add: unclipped_x_def unclipped_def min_x_def max_x_def src_half_def
        default_range_def r f c py_max_def py_min_def)
qed

text \<open>
  C9 (amended): without clipping, the rectangle of a source runs from
  \<^verbatim>\<open>min_x = floor(x - x_offset)\<close> to \<^verbatim>\<open>max_x = ceil(x - x_offset + width)\<close>, the
  difference and the sum being the rounded floats that the code computes. As long as
  \<open>\<bar>x - x_offset\<bar> + \<bar>width\<bar>\<close> is at most 2^52, \<^verbatim>\<open>max_x - min_x\<close> lies between the floor of
  the width and the ceiling of the width plus 1, and it is the width when
  \<^verbatim>\<open>x - x_offset\<close> and the width are whole numbers. Likewise for y and the height.
\<close>

theorem C9_rect_size:
  assumes "unclipped_x s r res" and "unclipped_y s r res"
  shows "\<exists>a b c d.
       fl_sub (Finite (src_x s)) (Finite (pr_x_offset r)) = Finite a
     \<and> fl_add (Finite a) (Finite (pr_width r)) = Finite b
     \<and> fl_sub (Finite (src_y s)) (Finite (pr_y_offset r)) = Finite c
     \<and> fl_add (Finite c) (Finite (pr_height r)) = Finite d
     \<and> bounds r res s = Inr (\<lfloor>a\<rfloor>, \<lceil>b\<rceil>, \<lfloor>c\<rfloor>, \<lceil>d\<rceil>)
     \<and> (\<bar>src_x s - pr_x_offset r\<bar> + \<bar>pr_width r\<bar> \<le> 2 ^ 52 \<longrightarrow>
          \<lfloor>pr_width r\<rfloor> \<le> \<lceil>b\<rceil> - \<lfloor>a\<rfloor> \<and> \<lceil>b\<rceil> - \<lfloor>a\<rfloor> \<le> \<lceil>pr_width r\<rceil> + 1
          \<and> (src_x s - pr_x_offset r \<in> \<int> \<and> pr_width r \<in> \<int>
               \<longrightarrow> of_int (\<lceil>b\<rceil> - \<lfloor>a\<rfloor>) = pr_width r))
     \<and> (\<bar>src_y s - pr_y_offset r\<bar> + \<bar>pr_height r\<bar> \<le> 2 ^ 52 \<longrightarrow>
          \<lfloor>pr_height r\<rfloor> \<le> \<lceil>d\<rceil> - \<lfloor>c\<rfloor> \<and> \<lceil>d\<rceil> - \<lfloor>c\<rfloor> \<le> \<lceil>pr_height r\<rceil> + 1
          \<and> (src_y s - pr_y_offset r \<in> \<int> \<and> pr_height r \<in> \<int>
               \<longrightarrow> of_int (\<lceil>d\<rceil> - \<lfloor>c\<rfloor>) = pr_height r))"
proof -
  from unclipped_bounds [OF assms(1) [unfolded unclipped_x_def]]
  obtain a b where a: "round_f64 (src_x s - pr_x_offset r) = Finite a"
    and b: "round_f64 (a + pr_width r) = Finite b"
    and lo_x: "min_x s r = Inr \<lfloor>a\<rfloor>" and hi_x: "max_x s r res = Inr \<lceil>b\<rceil>"
    unfolding min_x_def max_x_def by blast
  from unclipped_bounds [OF assms(2) [unfolded unclipped_y_def]]
  obtain c d where c: "round_f64 (src_y s - pr_y_offset r) = Finite c"
    and d: "round_f64 (c + pr_height r) = Finite d"
    and lo_y: "min_y s r = Inr \<lfloor>c\<rfloor>" and hi_y: "max_y s r res = Inr \<lceil>d\<rceil>"
    unfolding min_y_def max_y_def by blast
  have bnd: "bounds r res s = Inr (\<lfloor>a\<rfloor>, \<lceil>b\<rceil>, \<lfloor>c\<rfloor>, \<lceil>d\<rceil>)"
    unfolding bounds_Inr using lo_x hi_x lo_y hi_y by simp
  note x = axis_range [OF a b] axis_whole [OF a b]
  note y = axis_range [OF c d] axis_whole [OF c d]
  show ?thesis
    using a b c d bnd x y
    by (intro exI [of _ a] exI [of _ b] exI [of _ c] exI [of _ d]) simp
qed

text \<open>
  C9, witness: the source at (10.5, 10) with the default range: twelve columns, between
  11 and 12, and eight rows, the height.
\<close>

theorem C9_rect_size_witness:
  "unclipped_x src_half default_range (100, 100)
   \<and> unclipped_y src_half default_range (100, 100)
   \<and> bounds default_range (100, 100) src_half = Inr (6, 18, 6, 14)
   \<and> \<lfloor>pr_width default_range\<rfloor> \<le> 18 - 6 \<and> 18 - 6 \<le> \<lceil>pr_width default_range\<rceil> + 1
   \<and> real_of_int (14 - 6) = pr_height default_range"
proof -
  have r: "round_f64 (13 / 2) = Finite (13 / 2)" "round_f64 (35 / 2) = Finite (35 / 2)"
    using round_f64_half [of 13] round_f64_half [of 35] by simp_all
  have i: "round_f64 6 = Finite 6" "round_f64 14 = Finite 14"
    using round_f64_int [of 6] round_f64_int [of 14] by simp_all
  have f: "\<lfloor>13 / 2 :: real\<rfloor> = 6" by linarith
  have c: "\<lceil>35 / 2 :: real\<rceil> = 18" by linarith
  have ux: "unclipped_x src_half default_range (100, 100)"
    by (simp add: unclipped_x_def unclipped_def src_half_def default_range_def r f c)
  have uy: "unclipped_y src_half default_range (100, 100)"
    by (simp add: unclipped_y_def unclipped_def src_half_def default_range_def i)
  from C9_rect_size [OF ux uy] obtain a b c' d where
    ea: "fl_sub (Finite (src_x src_half)) (Finite (pr_x_offset default_range)) = Finite a"
    and eb: "fl_add (Finite a) (Finite (pr_width default_range)) = Finite b"
    and ec: "fl_sub (Finite (src_y src_half)) (Finite (pr_y_offset default_range)) = Finite c'"
    and ed: "fl_add (Finite c') (Finite (pr_height default_range)) = Finite d"
    and bnd: "bounds default_range (100, 100) src_half = Inr (\<lfloor>a\<rfloor>, \<lceil>b\<rceil>, \<lfloor>c'\<rfloor>, \<lceil>d\<rceil>)"
    by blast
  from ea have a: "a = 13 / 2" by (simp add: src_half_def default_range_def r)
  from eb have b: "b = 35 / 2" unfolding a by (simp add: default_range_def r)
  from ec have c': "c' = 6" by (simp add: src_half_def default_range_def i)
  from ed have d: "d = 14" unfolding c' by (simp add: default_range_def i)
  note a b c' d
  with bnd have "bounds default_range (100, 100) src_half = Inr (6, 18, 6, 14)"
    by (simp add: f c)
  with ux uy show ?thesis by (simp add: default_range_def)
qed
section \<open>The assignment grid, pixel by pixel\<close>

subsection \<open>Patches\<close>

lemma shaped_full: "shaped shape (full shape v)"
  by (simp add: shaped_def full_def)

lemma nth_full: "j < fst shape \<Longrightarrow> i < snd shape \<Longrightarrow> full shape v ! j ! i = v"
  by (simp add: full_def)

lemma shaped_nth: "shaped shape a \<Longrightarrow> j < fst shape \<Longrightarrow> length (a ! j) = snd shape"
  by (simp add: shaped_def)

lemma shaped_set_patch: "shaped shape a \<Longrightarrow> shaped shape (set_patch ys xs f a)"
  by (auto simp: shaped_def set_patch_def)

lemma nth_set_patch_out:
  assumes "shaped shape a" and "j < fst shape" and "i < snd shape"
    and "\<not> (in_slice ys j \<and> in_slice xs i)"
  shows "set_patch ys xs f a ! j ! i = a ! j ! i"
  using assms by (auto simp: shaped_def set_patch_def)

lemma nth_set_patch_in:
  assumes "shaped shape a" and "j < fst shape" and "i < snd shape"
    and "in_slice ys j" and "in_slice xs i"
  shows "set_patch ys xs f a ! j ! i = f (j - fst ys) (i - fst xs) (a ! j ! i)"
  using assms by (simp add: shaped_def set_patch_def)

lemma shaped_invalidate: "shaped shape a \<Longrightarrow> shaped shape (invalidate a b)"
  by (auto simp: shaped_def invalidate_def)

lemma nth_invalidate:
  assumes "shaped shape a" and "j < fst shape" and "i < snd shape"
  shows "invalidate a b ! j ! i = (if b ! j ! i then nan_cell else a ! j ! i)"
  using assms by (simp add: shaped_def invalidate_def)

lemma slice_index_le: "slice_index k n \<le> n"
  by (auto simp: slice_index_def)

lemma in_slice_x_offset:
  assumes "in_slice (slice_bounds lo hi n) i" and "0 \<le> lo"
    and "broadcastable (nat (hi - lo)) (slice_len (slice_bounds lo hi n))"
  shows "bcast (map f (arange lo hi)) (i - fst (slice_bounds lo hi n)) = f (int i)"
proof -
  from assms(1) have i: "slice_index lo n \<le> i" "i < slice_index hi n"
    by (simp_all add: in_slice_def slice_bounds_def)
  have hin: "slice_index hi n \<le> n" by (rule slice_index_le)
  from i hin assms(2) have lo: "slice_index lo n = nat lo" "nat lo \<le> i"
    by (auto simp: slice_index_def min_def split: if_splits)
  have len: "slice_len (slice_bounds lo hi n) = slice_index hi n - nat lo"
    by (simp add: slice_len_def slice_bounds_def lo)
  with i lo have pos: "0 < slice_len (slice_bounds lo hi n)" by simp
  from assms(3) pos have hi: "lo < hi"
    by (auto simp: broadcastable_def)
  then have hi0: "0 \<le> hi" using assms(2) by simp
  then have shi: "slice_index hi n = min (nat hi) n" by (simp add: slice_index_def)
  show ?thesis
  proof (cases "nat (hi - lo) = 1")
    case True
    then have "hi = lo + 1" by simp
    with i lo shi assms(2) have "i = nat lo" by (simp add: min_def split: if_splits)
    with True assms(2) show ?thesis
      by (simp add: bcast_def arange_def slice_bounds_def lo)
  next
    case False
    with assms(3) have "nat (hi - lo) = slice_index hi n - nat lo"
      by (simp add: broadcastable_def len)
    with i lo have "i - nat lo < nat (hi - lo)" by simp
    with False assms(2) lo show ?thesis
      by (simp add: bcast_def arange_def slice_bounds_def)
  qed
qed

lemma patch_ok_nonneg:
  assumes "bounds r res s = Inr (lo_x, hi_x, lo_y, hi_y)" and "0 \<le> hi_x" and "0 \<le> hi_y"
  shows "patch_ok r res s"
proof -
  have len: "slice_len (slice_bounds lo hi n) = nat (hi - lo)"
    if "0 \<le> lo" "0 \<le> hi" "hi \<le> int n" for lo hi n
    using that by (auto simp: slice_len_def slice_bounds_def slice_index_def min_def)
  note img = bounds_in_image [OF assms(1)]
  with assms show ?thesis
    by (simp add: patch_ok_def len broadcastable_def)
qed

subsection \<open>One source, then all of them\<close>

lemma assign_source_eq:
  assumes "shaped res result" and "shaped res shared"
  shows "\<exists>result' shared' e.
     assign_source r res (s, c) (result, shared) =
       (if patch_ok r res s then Inr (result', shared') else Inl e) \<and>
     shaped res result' \<and> shaped res shared' \<and>
     (patch_ok r res s \<longrightarrow> (\<forall>j<fst res. \<forall>i<snd res.
        result' ! j ! i = (if covers r res s j i then cell_of s j i else result ! j ! i) \<and>
        shared' ! j ! i = (if covers r res s j i
                           then c \<or> isfinite (x_off (result ! j ! i)) \<or> shared ! j ! i
                           else shared ! j ! i)))"
proof (cases "bounds r res s")
  case (Inl e)
  then have "assign_source r res (s, c) (result, shared) = Inl e"
    by (simp add: assign_source_def bind_e_simps)
  moreover from Inl have "\<not> patch_ok r res s" by (simp add: patch_ok_def)
  ultimately show ?thesis
    using assms by (intro exI [of _ result] exI [of _ shared] exI [of _ e]) simp
next
  case (Inr bnd)
  obtain lo_x hi_x lo_y hi_y where "bnd = (lo_x, hi_x, lo_y, hi_y)" by (cases bnd)
  with Inr have B: "bounds r res s = Inr (lo_x, hi_x, lo_y, hi_y)" by simp
  note img = bounds_in_image [OF B]
  define ys where "ys = slice_bounds lo_y hi_y (fst res)"
  define xs where "xs = slice_bounds lo_x hi_x (snd res)"
  define x_vals where "x_vals = map (\<lambda>k. Finite (real_of_int k - src_x s + 1 / 2))
                     (arange lo_x hi_x)"
  define y_vals where "y_vals = map (\<lambda>k. Finite (real_of_int k - src_y s + 1 / 2))
                     (arange lo_y hi_y)"
  define shared' where "shared' = (if c then set_patch ys xs (\<lambda>j i b. True) shared
                     else set_patch ys xs
                            (\<lambda>j i b. if isfinite (x_off (result ! (fst ys + j) ! (fst xs + i)))
                                     then True else b) shared)"
  define result' where "result' = set_patch ys xs (\<lambda>j i c. c\<lparr>norm_f := src_flux s\<rparr>)
                 (set_patch ys xs (\<lambda>j i c. c\<lparr>zero_point := src_bg s\<rparr>)
                   (set_patch ys xs (\<lambda>j i c. c\<lparr>y_off := bcast y_vals j\<rparr>)
                     (set_patch ys xs (\<lambda>j i c. c\<lparr>x_off := bcast x_vals i\<rparr>) result)))"
  have lens: "length x_vals = nat (hi_x - lo_x)" "length y_vals = nat (hi_y - lo_y)"
    by (simp_all add: x_vals_def y_vals_def arange_def)
  have eq: "assign_source r res (s, c) (result, shared) =
       (if patch_ok r res s then Inr (result', shared') else Inl ValueError)"
    unfolding assign_source_def patch_ok_def result'_def shared'_def x_vals_def y_vals_def
      ys_def xs_def
    by (simp add: Let_def arange_def B bind_e_simps)
  have sh1: "shaped res result'"
    unfolding result'_def by (intro shaped_set_patch assms)
  have sh2: "shaped res shared'"
    unfolding shared'_def using assms by (simp add: shaped_set_patch)
  have vals: "result' ! j ! i = (if covers r res s j i then cell_of s j i else result ! j ! i)
      \<and> shared' ! j ! i = (if covers r res s j i
                           then c \<or> isfinite (x_off (result ! j ! i)) \<or> shared ! j ! i
                           else shared ! j ! i)"
    if ok: "patch_ok r res s" and j: "j < fst res" and i: "i < snd res" for j i
  proof (cases "covers r res s j i")
    case False
    then have out: "\<not> (in_slice ys j \<and> in_slice xs i)"
      by (simp add: covers_def ys_def xs_def B)
    have "result' ! j ! i = result ! j ! i"
      unfolding result'_def using j i assms
      by (simp add: nth_set_patch_out [where shape = res, OF _ _ _ out] shaped_set_patch)
    moreover have "shared' ! j ! i = shared ! j ! i"
      unfolding shared'_def using j i assms
      by (simp add: nth_set_patch_out [where shape = res, OF _ _ _ out])
    ultimately show ?thesis using False by simp
  next
    case True
    then have inn: "in_slice ys j" "in_slice xs i"
      by (simp_all add: covers_def ys_def xs_def B)
    from ok have okx: "broadcastable (nat (hi_x - lo_x))
        (slice_len (slice_bounds lo_x hi_x (snd res)))"
      and oky: "broadcastable (nat (hi_y - lo_y))
        (slice_len (slice_bounds lo_y hi_y (fst res)))"
      by (simp_all add: patch_ok_def B)
    have bx: "bcast x_vals (i - fst xs) = Finite (real i - src_x s + 1 / 2)"
      unfolding x_vals_def xs_def
      by (simp add: in_slice_x_offset [OF inn(2) [unfolded xs_def] img(1) okx])
    have by': "bcast y_vals (j - fst ys) = Finite (real j - src_y s + 1 / 2)"
      unfolding y_vals_def ys_def
      by (simp add: in_slice_x_offset [OF inn(1) [unfolded ys_def] img(2) oky])
    have "result' ! j ! i = cell_of s j i"
      unfolding result'_def using j i assms bx by'
      by (simp add: nth_set_patch_in [where shape = res, OF _ _ _ inn] shaped_set_patch
          cell_of_def)
    moreover have "fst ys + (j - fst ys) = j" "fst xs + (i - fst xs) = i"
      using inn by (simp_all add: in_slice_def)
    then have "shared' ! j ! i = (c \<or> isfinite (x_off (result ! j ! i)) \<or> shared ! j ! i)"
      unfolding shared'_def using j i assms
      by (simp add: nth_set_patch_in [where shape = res, OF _ _ _ inn])
    ultimately show ?thesis using True by simp
  qed
  from eq sh1 sh2 vals show ?thesis by blast
qed

lemma assign_all_eq:
  assumes "shaped res result" and "shaped res shared"
  shows "if \<forall>sc \<in> set scs. patch_ok r res (fst sc)
    then \<exists>result' shared'.
      assign_all r res scs (result, shared) = Inr (result', shared') \<and>
      shaped res result' \<and> shaped res shared' \<and>
      (\<forall>j<fst res. \<forall>i<snd res.
         (result' ! j ! i, shared' ! j ! i)
           = fold (pstep r res j i) scs (result ! j ! i, shared ! j ! i))
    else \<exists>e. assign_all r res scs (result, shared) = Inl e"
  using assms
proof (induction scs arbitrary: result shared)
  case Nil
  then show ?case by simp
next
  case (Cons sc scs)
  obtain s c where sc: "sc = (s, c)" by (cases sc)
  from assign_source_eq [OF Cons.prems, of r s c]
  obtain result1 shared1 e1 where
    step: "assign_source r res (s, c) (result, shared) =
       (if patch_ok r res s then Inr (result1, shared1) else Inl e1)"
    and sh: "shaped res result1" "shaped res shared1"
    and vals: "patch_ok r res s \<Longrightarrow> j < fst res \<Longrightarrow> i < snd res \<Longrightarrow>
        result1 ! j ! i = (if covers r res s j i then cell_of s j i else result ! j ! i) \<and>
        shared1 ! j ! i = (if covers r res s j i
                           then c \<or> isfinite (x_off (result ! j ! i)) \<or> shared ! j ! i
                           else shared ! j ! i)" for j i
    by blast
  show ?case
  proof (cases "patch_ok r res s")
    case False
    with step sc show ?thesis by simp
  next
    case True
    have one: "(result1 ! j ! i, shared1 ! j ! i)
        = pstep r res j i sc (result ! j ! i, shared ! j ! i)"
      if "j < fst res" "i < snd res" for j i
      using vals [OF True that] by (simp add: pstep_def sc)
    from True step have run: "assign_all r res (sc # scs) (result, shared)
        = assign_all r res scs (result1, shared1)"
      by (simp add: sc)
    show ?thesis
    proof (cases "\<forall>sc \<in> set scs. patch_ok r res (fst sc)")
      case False
      with Cons.IH [OF sh] run show ?thesis by auto
    next
      case all: True
      with Cons.IH [OF sh] obtain result' shared' where
        r: "assign_all r res scs (result1, shared1) = Inr (result', shared')"
        "shaped res result'" "shaped res shared'"
        "\<forall>j<fst res. \<forall>i<snd res. (result' ! j ! i, shared' ! j ! i)
           = fold (pstep r res j i) scs (result1 ! j ! i, shared1 ! j ! i)"
        by auto
      from r(4) one have "\<forall>j<fst res. \<forall>i<snd res. (result' ! j ! i, shared' ! j ! i)
           = fold (pstep r res j i) (sc # scs) (result ! j ! i, shared ! j ! i)"
        by simp
      with r(1-3) run all True sc show ?thesis by simp
    qed
  qed
qed

lemma fold_pstep:
  "fold (pstep r res j i) scs (cv, sh) =
     (let cov = filter (\<lambda>sc. covers r res (fst sc) j i) scs
      in (if cov = [] then cv else cell_of (fst (last cov)) j i,
          sh \<or> (\<exists>sc \<in> set cov. snd sc) \<or> (isfinite (x_off cv) \<and> cov \<noteq> [])
             \<or> 2 \<le> length cov))"
proof (induction scs arbitrary: cv sh)
  case Nil
  show ?case by simp
next
  case (Cons sc scs)
  show ?case
  proof (cases "covers r res (fst sc) j i")
    case False
    then have "pstep r res j i sc (cv, sh) = (cv, sh)" by (simp add: pstep_def)
    with False show ?thesis by (simp add: Cons.IH)
  next
    case True
    have fin: "isfinite (x_off (cell_of (fst sc) j i))" by (simp add: cell_of_def)
    from True have "pstep r res j i sc (cv, sh)
        = (cell_of (fst sc) j i, snd sc \<or> isfinite (x_off cv) \<or> sh)"
      by (simp add: pstep_def)
    with True show ?thesis
      by (auto simp: Cons.IH Let_def fin Suc_le_eq)
  qed
qed

lemma zip_crowded_flags:
  "zip sources (map f sources) = map (\<lambda>s. (s, f s)) sources"
  by (induction sources) simp_all

lemma filter_covers_flags:
  "filter (\<lambda>sc. covers r res (fst sc) j i) (map (\<lambda>s. (s, f s)) sources)
     = map (\<lambda>s. (s, f s)) (claimants r res sources j i)"
  by (simp add: claimants_def filter_map comp_def)

text \<open>
  \<^verbatim>\<open>find_pixel_offsets\<close> raises exactly when a bound of some source is infinite or its
  offsets do not broadcast into its patch, and otherwise returns the grid described by
  \<open>pixel_spec\<close>.
\<close>

theorem find_pixel_offsets_eq:
  "if \<forall>s \<in> set sources. patch_ok r res s
   then \<exists>g. find_pixel_offsets sources r res cd = Inr g \<and> shaped res g \<and>
          (\<forall>j<fst res. \<forall>i<snd res. g ! j ! i = pixel_spec sources r res cd j i)
   else \<exists>e. find_pixel_offsets sources r res cd = Inl e"
proof -
  define scs where "scs = zip sources (crowded_flags sources cd)"
  have scs: "scs = map (\<lambda>s. (s, crowded sources cd s)) sources"
    unfolding scs_def crowded_flags_def crowded_def by (rule zip_crowded_flags)
  have ok_iff: "(\<forall>sc \<in> set scs. patch_ok r res (fst sc)) \<longleftrightarrow> (\<forall>s \<in> set sources. patch_ok r res s)"
    by (simp add: scs)
  have "shaped res (full res nan_cell)" "shaped res (full res False)"
    by (rule shaped_full)+
  note run = assign_all_eq [OF this, where r = r and scs = scs]
  show ?thesis
  proof (cases "\<forall>s \<in> set sources. patch_ok r res s")
    case False
    with run ok_iff obtain e where
      "assign_all r res scs (full res nan_cell, full res False) = Inl e" by auto
    with False show ?thesis
      by (simp add: find_pixel_offsets_def flip: scs_def)
  next
    case True
    with run ok_iff obtain result' shared' where
      r: "assign_all r res scs (full res nan_cell, full res False) = Inr (result', shared')"
      "shaped res result'" "shaped res shared'"
      and px: "\<And>j i. j < fst res \<Longrightarrow> i < snd res \<Longrightarrow> (result' ! j ! i, shared' ! j ! i)
           = fold (pstep r res j i) scs (nan_cell, False)"
      by (auto simp: nth_full)
    have "invalidate result' shared' ! j ! i = pixel_spec sources r res cd j i"
      if ji: "j < fst res" "i < snd res" for j i
    proof -
      let ?cl = "claimants r res sources j i"
      have nn: "\<not> isfinite (x_off nan_cell)" by (simp add: nan_cell_def)
      from px [OF ji] have
        res': "result' ! j ! i = (if ?cl = [] then nan_cell else cell_of (last ?cl) j i)"
        and sh': "shared' ! j ! i \<longleftrightarrow> (\<exists>s \<in> set ?cl. crowded sources cd s) \<or> 2 \<le> length ?cl"
        by (simp_all add: fold_pstep scs filter_covers_flags Let_def nn last_map)
      show ?thesis
      proof (cases ?cl)
        case Nil
        with res' sh' show ?thesis
          by (simp add: nth_invalidate [OF r(2) ji] pixel_spec_def)
      next
        case (Cons s rest)
        show ?thesis
        proof (cases rest)
          case Nil
          with Cons res' sh' show ?thesis
            by (simp add: nth_invalidate [OF r(2) ji] pixel_spec_def)
        next
          case (Cons t rest')
          with \<open>?cl = s # rest\<close> res' sh' show ?thesis
            by (simp add: nth_invalidate [OF r(2) ji] pixel_spec_def)
        qed
      qed
    qed
    with r True show ?thesis
      by (simp add: find_pixel_offsets_def shaped_invalidate flip: scs_def)
  qed
qed

lemma find_pixel_offsets_Inr:
  assumes "find_pixel_offsets sources r res cd = Inr g"
  shows "(\<forall>s \<in> set sources. patch_ok r res s) \<and> shaped res g \<and>
    (\<forall>j<fst res. \<forall>i<snd res. g ! j ! i = pixel_spec sources r res cd j i)"
  using find_pixel_offsets_eq [of sources r res cd] assms
  by (auto split: if_splits)

text \<open>
  A grid is returned whenever the bounds of every source are finite and no upper bound
  is negative, as for every source inside the image whose reference point lies inside
  its rectangle.
\<close>

lemma find_pixel_offsets_returns:
  assumes "\<forall>s \<in> set sources. \<exists>lo_x hi_x lo_y hi_y.
      bounds r res s = Inr (lo_x, hi_x, lo_y, hi_y) \<and> 0 \<le> hi_x \<and> 0 \<le> hi_y"
  shows "\<exists>g. find_pixel_offsets sources r res cd = Inr g"
proof -
  from assms have "\<forall>s \<in> set sources. patch_ok r res s"
    by (blast intro: patch_ok_nonneg)
  with find_pixel_offsets_eq [of sources r res cd] show ?thesis by auto
qed

subsection \<open>Claimants of a pixel\<close>

lemma covers_in_image:
  assumes "covers r res s j i"
  shows "j < fst res \<and> i < snd res"
proof -
  from assms obtain lo_x hi_x lo_y hi_y where
    "in_slice (slice_bounds lo_y hi_y (fst res)) j" "in_slice (slice_bounds lo_x hi_x (snd res)) i"
    by (auto simp: covers_def split: sum.splits)
  then show ?thesis
    using slice_index_le [of hi_y "fst res"] slice_index_le [of hi_x "snd res"]
    by (simp add: in_slice_def slice_bounds_def)
qed

lemma invalid_nan_cell: "invalid nan_cell"
  by (simp add: invalid_def nan_cell_def)

lemma two_claimants:
  assumes "a < length xs" "b < length xs" "a \<noteq> b" "P (xs ! a)" "P (xs ! b)"
  shows "2 \<le> length (filter P xs)"
proof -
  have "{a, b} \<subseteq> {k. k < length xs \<and> P (xs ! k)}" using assms by simp
  then have "card {a, b} \<le> card {k. k < length xs \<and> P (xs ! k)}"
    by (intro card_mono) simp_all
  with assms(3) show ?thesis by (simp add: length_filter_conv_card)
qed

lemma filter_unique_index:
  assumes "a < length xs" and "P (xs ! a)" and "\<forall>b<length xs. b \<noteq> a \<longrightarrow> \<not> P (xs ! b)"
  shows "filter P xs = [xs ! a]"
  using assms
proof (induction xs arbitrary: a)
  case Nil
  then show ?case by simp
next
  case (Cons x xs)
  show ?case
  proof (cases a)
    case 0
    have "\<not> P y" if "y \<in> set xs" for y
    proof -
      from that obtain k where "k < length xs" "y = xs ! k"
        by (auto simp: in_set_conv_nth)
      with Cons.prems(3) [rule_format, of "Suc k"] 0 show ?thesis by simp
    qed
    then have "filter P xs = []" by (simp add: filter_empty_conv)
    with 0 Cons.prems(2) show ?thesis by simp
  next
    case (Suc a')
    from Cons.prems(3) [rule_format, of 0] Suc have nx: "\<not> P x" by simp
    have "\<forall>b<length xs. b \<noteq> a' \<longrightarrow> \<not> P (xs ! b)"
    proof (intro allI impI)
      fix b assume "b < length xs" "b \<noteq> a'"
      with Cons.prems(3) [rule_format, of "Suc b"] Suc show "\<not> P (xs ! b)" by simp
    qed
    with Cons.IH [of a'] Cons.prems(1,2) Suc have "filter P xs = [xs ! a']" by simp
    with nx Suc show ?thesis by simp
  qed
qed

lemma pixel_spec_long:
  "2 \<le> length (claimants r res sources j i) \<Longrightarrow> pixel_spec sources r res cd j i = nan_cell"
  by (cases "claimants r res sources j i" rule: remdups_adj.cases)
    (simp_all add: pixel_spec_def)

lemma pixel_spec_crowded:
  assumes "s \<in> set (claimants r res sources j i)" and "crowded sources cd s"
  shows "pixel_spec sources r res cd j i = nan_cell"
  using assms
  by (cases "claimants r res sources j i" rule: remdups_adj.cases)
    (auto simp: pixel_spec_def)

lemma crowded_perm:
  assumes "mset sources' = mset sources"
  shows "crowded sources' cd s = crowded sources cd s"
proof -
  have "mset (filter (in_ball cd s) sources') = mset (filter (in_ball cd s) sources)"
    using assms by simp
  then have "length (filter (in_ball cd s) sources') = length (filter (in_ball cd s) sources)"
    by (rule mset_eq_length)
  then show ?thesis by (simp add: crowded_def query_ball_point_def)
qed

lemma pixel_spec_perm:
  assumes "mset sources' = mset sources"
  shows "pixel_spec sources' r res cd j i = pixel_spec sources r res cd j i"
proof -
  have m: "mset (claimants r res sources' j i) = mset (claimants r res sources j i)"
    using assms by (simp add: claimants_def)
  then have len: "length (claimants r res sources' j i) = length (claimants r res sources j i)"
    by (rule mset_eq_length)
  show ?thesis
  proof (cases "claimants r res sources j i" rule: remdups_adj.cases)
    case 1
    with m show ?thesis by (simp add: pixel_spec_def)
  next
    case (2 s)
    with m have "claimants r res sources' j i = [s]" by simp
    with 2 show ?thesis by (simp add: pixel_spec_def crowded_perm [OF assms])
  next
    case (3 s t rest)
    with len have "2 \<le> length (claimants r res sources' j i)"
      "2 \<le> length (claimants r res sources j i)" by simp_all
    then show ?thesis by (simp add: pixel_spec_long)
  qed
qed

lemma shaped_eqI:
  assumes "shaped res g" and "shaped res g'"
    and "\<And>j i. j < fst res \<Longrightarrow> i < snd res \<Longrightarrow> g ! j ! i = g' ! j ! i"
  shows "g = g'"
proof (rule nth_equalityI)
  show "length g = length g'" using assms(1,2) by (simp add: shaped_def)
next
  fix j assume "j < length g"
  then have j: "j < fst res" using assms(1) by (simp add: shaped_def)
  show "g ! j = g' ! j"
  proof (rule nth_equalityI)
    show "length (g ! j) = length (g' ! j)"
      using assms(1,2) j by (simp add: shaped_nth)
  next
    fix i assume "i < length (g ! j)"
    then have "i < snd res" using assms(1) j by (simp add: shaped_nth)
    with j show "g ! j ! i = g' ! j ! i" by (rule assms(3))
  qed
qed

text \<open>
  The grid does not depend on the order of the sources.
\<close>

lemma find_pixel_offsets_perm:
  assumes "mset sources' = mset sources" and "find_pixel_offsets sources r res cd = Inr g"
  shows "find_pixel_offsets sources' r res cd = Inr g"
proof -
  from find_pixel_offsets_Inr [OF assms(2)] have
    ok: "\<forall>s \<in> set sources. patch_ok r res s" and g: "shaped res g"
      "\<And>j i. j < fst res \<Longrightarrow> i < snd res \<Longrightarrow> g ! j ! i = pixel_spec sources r res cd j i"
    by blast+
  from ok have "\<forall>s \<in> set sources'. patch_ok r res s"
    using mset_eq_setD [OF assms(1)] by simp
  with find_pixel_offsets_eq [of sources' r res cd] obtain g' where
    g': "find_pixel_offsets sources' r res cd = Inr g'" "shaped res g'"
      "\<And>j i. j < fst res \<Longrightarrow> i < snd res \<Longrightarrow> g' ! j ! i = pixel_spec sources' r res cd j i"
    by auto
  have "g' = g"
    using g'(2) g(1) by (rule shaped_eqI) (simp add: g(2) g'(3) pixel_spec_perm [OF assms(1)])
  with g'(1) show ?thesis by simp
qed

subsection \<open>The rectangles of the examples\<close>

lemma bounds_src_a: "bounds small_range (3, 3) src_a = Inr (0, 2, 0, 2)"
proof -
  have fl: "\<lfloor>1 / 2 :: real\<rfloor> = 0" "\<lceil>3 / 2 :: real\<rceil> = 2" by linarith+
  show ?thesis
    by (simp add: bounds_Inr min_x_def max_x_def min_y_def max_y_def small_range_def
        src_a_def round_f64_simps py_max_def py_min_def fl)
qed

lemma bounds_src_b: "bounds small_range (3, 3) src_b = Inr (1, 2, 0, 2)"
proof -
  have fl: "\<lfloor>1 / 2 :: real\<rfloor> = 0" "\<lceil>3 / 2 :: real\<rceil> = 2" by linarith+
  show ?thesis
    by (simp add: bounds_Inr min_x_def max_x_def min_y_def max_y_def small_range_def
        src_b_def round_f64_simps py_max_def py_min_def fl)
qed

lemma bounds_src_iso: "bounds default_range (20, 20) src_iso = Inr (6, 17, 6, 14)"
  by (simp add: bounds_Inr min_x_def max_x_def min_y_def max_y_def default_range_def
      src_iso_def round_f64_simps py_max_def py_min_def)

section \<open>Overlapping rectangles\<close>

text \<open>
  C1: when the patches of two different sources overlap, every pixel of the overlap is
  invalid (all four fields NaN) in the returned grid, and every permutation of the
  source list returns a grid with the same set of invalid pixels.
\<close>

theorem C1_overlap_invalid:
  assumes "find_pixel_offsets sources r res cd = Inr g"
  shows "(\<forall>a b j i. a < length sources \<and> b < length sources \<and> a \<noteq> b
            \<and> covers r res (sources ! a) j i \<and> covers r res (sources ! b) j i
          \<longrightarrow> invalid (g ! j ! i))
       \<and> (\<forall>sources'. mset sources' = mset sources
          \<longrightarrow> (\<exists>g'. find_pixel_offsets sources' r res cd = Inr g'
                    \<and> invalid_pixels g' = invalid_pixels g))"
proof (intro conjI allI impI)
  fix a b j i
  assume h: "a < length sources \<and> b < length sources \<and> a \<noteq> b
            \<and> covers r res (sources ! a) j i \<and> covers r res (sources ! b) j i"
  then have ji: "j < fst res" "i < snd res" using covers_in_image by blast+
  from h have "2 \<le> length (claimants r res sources j i)"
    unfolding claimants_def by (intro two_claimants [of a _ b]) simp_all
  then have "pixel_spec sources r res cd j i = nan_cell" by (rule pixel_spec_long)
  with find_pixel_offsets_Inr [OF assms] ji show "invalid (g ! j ! i)"
    by (simp add: invalid_nan_cell)
next
  fix sources' :: "source list"
  assume p: "mset sources' = mset sources"
  have "find_pixel_offsets sources' r res cd = Inr g"
    using p assms by (rule find_pixel_offsets_perm)
  then show "\<exists>g'. find_pixel_offsets sources' r res cd = Inr g'
                    \<and> invalid_pixels g' = invalid_pixels g" by simp
qed

text \<open>
  C1, witness: two sources half a pixel apart, neither crowded at distance 1/4, share
  the pixel in row 1 and column 1 of a 3 x 3 image.
\<close>

theorem C1_overlap_invalid_witness:
  "\<exists>g. find_pixel_offsets [src_a, src_b] small_range (3, 3) (1 / 4) = Inr g
      \<and> covers small_range (3, 3) src_a 1 1 \<and> covers small_range (3, 3) src_b 1 1
      \<and> invalid (g ! 1 ! 1)
      \<and> (\<exists>g'. find_pixel_offsets [src_b, src_a] small_range (3, 3) (1 / 4) = Inr g'
             \<and> invalid_pixels g' = invalid_pixels g)"
proof -
  have ca: "covers small_range (3, 3) src_a 1 1"
    by (simp add: covers_def bounds_src_a slice_bounds_def slice_index_def in_slice_def)
  have cb: "covers small_range (3, 3) src_b 1 1"
    by (simp add: covers_def bounds_src_b slice_bounds_def slice_index_def in_slice_def)
  have "\<forall>s \<in> set [src_a, src_b]. \<exists>lo_x hi_x lo_y hi_y.
      bounds small_range (3, 3) s = Inr (lo_x, hi_x, lo_y, hi_y) \<and> 0 \<le> hi_x \<and> 0 \<le> hi_y"
    by (simp add: bounds_src_a bounds_src_b)
  then obtain g where g: "find_pixel_offsets [src_a, src_b] small_range (3, 3) (1 / 4) = Inr g"
    using find_pixel_offsets_returns by blast
  note c1 = C1_overlap_invalid [OF g]
  from c1 [THEN conjunct1, rule_format, of 0 1 1 1] ca cb
  have inv: "invalid (g ! 1 ! 1)" by (simp add: src_a_def src_b_def)
  have "mset [src_b, src_a] = mset [src_a, src_b]" by simp
  with c1 [THEN conjunct2, rule_format, of "[src_b, src_a]"]
  have "\<exists>g'. find_pixel_offsets [src_b, src_a] small_range (3, 3) (1 / 4) = Inr g'
             \<and> invalid_pixels g' = invalid_pixels g" by blast
  with g ca cb inv show ?thesis by blast
qed

section \<open>Crowded sources\<close>

lemma in_ball_distance: "in_ball r s t \<longleftrightarrow> distance s t \<le> r"
proof (cases "0 \<le> r")
  case True
  let ?d = "(src_x s - src_x t)\<^sup>2 + (src_y s - src_y t)\<^sup>2"
  have "sqrt (r\<^sup>2) = r" using True by simp
  then have "sqrt ?d \<le> r \<longleftrightarrow> sqrt ?d \<le> sqrt (r\<^sup>2)" by simp
  also have "\<dots> \<longleftrightarrow> ?d \<le> r\<^sup>2" by (rule real_sqrt_le_iff)
  finally show ?thesis using True by (simp add: in_ball_def distance_def)
next
  case False
  have "0 \<le> distance s t" by (simp add: distance_def)
  with False show ?thesis by (simp add: in_ball_def)
qed

lemma crowded_flags_nth:
  "k < length sources \<Longrightarrow> crowded_flags sources cd ! k = crowded sources cd (sources ! k)"
  by (simp add: crowded_flags_def crowded_def)

text \<open>
  C2: a source is flagged crowded exactly when more than one source of the list, itself
  included, lies at distance at most \<^verbatim>\<open>crowding_distance\<close> from it; and two sources
  half a pixel apart are both flagged at crowding distance 1, so that every pixel of
  either patch is invalid in the returned grid.
\<close>

theorem C2_crowded:
  "(\<forall>k<length sources. crowded_flags sources cd ! k \<longleftrightarrow>
       1 < card {m. m < length sources \<and> distance (sources ! k) (sources ! m) \<le> cd})
   \<and> (\<forall>a b. a < length sources \<and> b < length sources \<and> a \<noteq> b
         \<and> distance (sources ! a) (sources ! b) = 1 / 2
       \<longrightarrow> crowded_flags sources 1 ! a \<and> crowded_flags sources 1 ! b
          \<and> (\<forall>g j i. find_pixel_offsets sources r res 1 = Inr g
                \<and> (covers r res (sources ! a) j i \<or> covers r res (sources ! b) j i)
              \<longrightarrow> invalid (g ! j ! i)))"
proof (intro conjI allI impI)
  fix k assume "k < length sources"
  then show "crowded_flags sources cd ! k \<longleftrightarrow>
       1 < card {m. m < length sources \<and> distance (sources ! k) (sources ! m) \<le> cd}"
    by (simp add: crowded_flags_nth crowded_def query_ball_point_def length_filter_conv_card
        in_ball_distance)
next
  fix a b
  assume h: "a < length sources \<and> b < length sources \<and> a \<noteq> b
         \<and> distance (sources ! a) (sources ! b) = 1 / 2"
  have self: "distance s s = 0" for s by (simp add: distance_def)
  have sym: "distance s t = distance t s" for s t
    by (simp add: distance_def power2_commute)
  from h have "2 \<le> length (filter (in_ball 1 (sources ! a)) sources)"
    by (intro two_claimants [of a _ b]) (simp_all add: in_ball_distance self)
  then have ca: "crowded sources 1 (sources ! a)"
    by (simp add: crowded_def query_ball_point_def)
  from h have "2 \<le> length (filter (in_ball 1 (sources ! b)) sources)"
    by (intro two_claimants [of a _ b]) (simp_all add: in_ball_distance self sym [of "sources ! b"])
  then have cb: "crowded sources 1 (sources ! b)"
    by (simp add: crowded_def query_ball_point_def)
  from ca h show "crowded_flags sources 1 ! a" by (simp add: crowded_flags_nth)
  from cb h show "crowded_flags sources 1 ! b" by (simp add: crowded_flags_nth)
  fix g j i
  assume g: "find_pixel_offsets sources r res 1 = Inr g
                \<and> (covers r res (sources ! a) j i \<or> covers r res (sources ! b) j i)"
  then have ji: "j < fst res" "i < snd res" using covers_in_image by blast+
  from g h ca cb obtain s where "s \<in> set (claimants r res sources j i)" "crowded sources 1 s"
    unfolding claimants_def by (metis (mono_tags, lifting) mem_Collect_eq nth_mem set_filter)
  then have "pixel_spec sources r res 1 j i = nan_cell" by (rule pixel_spec_crowded)
  with find_pixel_offsets_Inr [of sources r res 1 g] g ji show "invalid (g ! j ! i)"
    by (simp add: invalid_nan_cell)
qed

text \<open>
  C2, witness: the two sources half a pixel apart, at crowding distance 1.
\<close>

theorem C2_crowded_witness:
  "distance src_a src_b = 1 / 2
   \<and> crowded_flags [src_a, src_b] 1 ! 0 \<and> crowded_flags [src_a, src_b] 1 ! 1
   \<and> (\<exists>g. find_pixel_offsets [src_a, src_b] small_range (3, 3) 1 = Inr g
         \<and> covers small_range (3, 3) src_a 1 0 \<and> invalid (g ! 1 ! 0))"
proof -
  have "sqrt ((1 / 2)\<^sup>2) = \<bar>1 / 2 :: real\<bar>" by (rule real_sqrt_abs)
  then have d: "distance src_a src_b = 1 / 2"
    by (simp add: distance_def src_a_def src_b_def power2_eq_square)
  have ca: "covers small_range (3, 3) src_a 1 0"
    by (simp add: covers_def bounds_src_a slice_bounds_def slice_index_def in_slice_def)
  have "\<forall>s \<in> set [src_a, src_b]. \<exists>lo_x hi_x lo_y hi_y.
      bounds small_range (3, 3) s = Inr (lo_x, hi_x, lo_y, hi_y) \<and> 0 \<le> hi_x \<and> 0 \<le> hi_y"
    by (simp add: bounds_src_a bounds_src_b)
  then obtain g where g: "find_pixel_offsets [src_a, src_b] small_range (3, 3) 1 = Inr g"
    using find_pixel_offsets_returns by blast
  have "0 < length [src_a, src_b] \<and> 1 < length [src_a, src_b] \<and> (0::nat) \<noteq> 1
      \<and> distance ([src_a, src_b] ! 0) ([src_a, src_b] ! 1) = 1 / 2"
    using d by simp
  with C2_crowded [where sources = "[src_a, src_b]" and r = small_range and res = "(3, 3)"]
  have c2: "crowded_flags [src_a, src_b] 1 ! 0 \<and> crowded_flags [src_a, src_b] 1 ! 1
      \<and> (\<forall>g j i. find_pixel_offsets [src_a, src_b] small_range (3, 3) 1 = Inr g
            \<and> (covers small_range (3, 3) ([src_a, src_b] ! 0) j i
              \<or> covers small_range (3, 3) ([src_a, src_b] ! 1) j i)
          \<longrightarrow> invalid (g ! j ! i))"
    by blast
  then have cf: "crowded_flags [src_a, src_b] 1 ! 0" "crowded_flags [src_a, src_b] 1 ! 1"
    by simp_all
  from c2 g ca have "invalid (g ! 1 ! 0)" by simp
  with d cf g ca show ?thesis by blast
qed

section \<open>Isolated sources\<close>

text \<open>
  C3: for a source that is not crowded and whose patch shares no pixel with the patch of
  another source, every pixel of the patch holds the offsets of the pixel from the
  source plus one half, the flux and the background of the source.
\<close>

theorem C3_isolated_cells:
  assumes "find_pixel_offsets sources r res cd = Inr g"
    and "a < length sources"
    and "\<not> crowded_flags sources cd ! a"
    and "\<forall>b<length sources. b \<noteq> a \<longrightarrow>
           (\<forall>j i. \<not> (covers r res (sources ! a) j i \<and> covers r res (sources ! b) j i))"
    and "covers r res (sources ! a) j i"
  shows "g ! j ! i =
     \<lparr>x_off = Finite (real i - src_x (sources ! a) + 1 / 2),
      y_off = Finite (real j - src_y (sources ! a) + 1 / 2),
      norm_f = src_flux (sources ! a), zero_point = src_bg (sources ! a)\<rparr>"
proof -
  from assms(5) have ji: "j < fst res" "i < snd res" using covers_in_image by blast+
  from assms(4,5) have "\<forall>b<length sources. b \<noteq> a \<longrightarrow> \<not> covers r res (sources ! b) j i"
    by blast
  with assms(2,5) have "claimants r res sources j i = [sources ! a]"
    unfolding claimants_def by (intro filter_unique_index) simp_all
  moreover from assms(2,3) have "\<not> crowded sources cd (sources ! a)"
    by (simp add: crowded_flags_nth)
  ultimately have "pixel_spec sources r res cd j i = cell_of (sources ! a) j i"
    by (simp add: pixel_spec_def)
  with find_pixel_offsets_Inr [OF assms(1)] ji show ?thesis
    by (simp add: cell_of_def)
qed

text \<open>
  C3, witness: the scenario of the specification, one source at (10, 10) with flux 100 and
  background 5 in a 20 x 20 image; the pixel (10, 10) holds (0.5, 0.5, 100, 5).
\<close>

theorem C3_isolated_cells_witness:
  "\<exists>g. find_pixel_offsets [src_iso] default_range (20, 20) 1 = Inr g
      \<and> \<not> crowded_flags [src_iso] 1 ! 0
      \<and> covers default_range (20, 20) src_iso 10 10
      \<and> g ! 10 ! 10 = \<lparr>x_off = Finite (1 / 2), y_off = Finite (1 / 2),
                        norm_f = Finite 100, zero_point = Finite 5\<rparr>"
proof -
  have cv: "covers default_range (20, 20) src_iso 10 10"
    by (simp add: covers_def bounds_src_iso slice_bounds_def slice_index_def in_slice_def)
  have nc: "\<not> crowded_flags [src_iso] 1 ! 0"
    by (simp add: crowded_flags_def query_ball_point_def)
  have "\<forall>s \<in> set [src_iso]. \<exists>lo_x hi_x lo_y hi_y.
      bounds default_range (20, 20) s = Inr (lo_x, hi_x, lo_y, hi_y) \<and> 0 \<le> hi_x \<and> 0 \<le> hi_y"
    by (simp add: bounds_src_iso)
  then obtain g where g: "find_pixel_offsets [src_iso] default_range (20, 20) 1 = Inr g"
    using find_pixel_offsets_returns by blast
  have "g ! 10 ! 10 = \<lparr>x_off = Finite (real 10 - src_x ([src_iso] ! 0) + 1 / 2),
      y_off = Finite (real 10 - src_y ([src_iso] ! 0) + 1 / 2),
      norm_f = src_flux ([src_iso] ! 0), zero_point = src_bg ([src_iso] ! 0)\<rparr>"
    using nc cv by (intro C3_isolated_cells [OF g]) simp_all
  then have "g ! 10 ! 10 = \<lparr>x_off = Finite (1 / 2), y_off = Finite (1 / 2),
                        norm_f = Finite 100, zero_point = Finite 5\<rparr>"
    by (simp add: src_iso_def)
  with g nc cv show ?thesis by blast
qed

section \<open>The samples that are extracted\<close>












section \<open>Padding\<close>

subsection \<open>Slices, the mask and the allocation\<close>




lemma keep_mask:
  "keep_prf_data r d = map (strictly_inside r) d"
proof -
  have "(f_less (Finite a) (sx s) \<and> f_less (sx s) (Finite b))
      \<and> (f_less (Finite c) (sy s) \<and> f_less (sy s) (Finite e))
    \<longleftrightarrow> (\<exists>x y. sx s = Finite x \<and> sy s = Finite y \<and> a < x \<and> x < b \<and> c < y \<and> y < e)"
    for a b c e and s :: sample
    by (cases "sx s"; cases "sy s") simp_all
  then show ?thesis by (simp add: keep_prf_data_def strictly_inside_def)
qed

lemma kept_columns_filter: "kept_columns r d = filter (strictly_inside r) d"
  unfolding kept_columns_def keep_mask by (induction d) simp_all

lemma num_keep_length:
  "length (filter id (keep_prf_data r d)) = length (filter (strictly_inside r) d)"
  unfolding keep_mask by (induction d) simp_all

lemma set_slice_prefix:
  assumes "set_slice 0 (length vals) vals (replicate n None) = Inr row"
    and "int n = int (length vals) + 4 * z"
  shows "row = map Some vals @ replicate (n - length vals) None \<and> length vals \<le> n"
proof (cases "length vals \<le> n")
  case True
  with assms(1) show ?thesis
    by (auto simp: set_slice_def Let_def min_def split: if_splits)
next
  case False
  with assms(1) have "length vals = 1" "n = 0"
    by (auto simp: set_slice_def Let_def min_def split: if_splits)
  with assms(2) show ?thesis by presburger
qed

lemma set_slice_error: "set_slice start stop vals row = Inl e \<Longrightarrow> e = ValueError"
  by (auto simp: set_slice_def Let_def split: if_splits)


lemma set_slice_prefix_fails:
  assumes "n < length vals" and "int n = int (length vals) + 4 * z"
  shows "set_slice 0 (length vals) vals (replicate n None) = Inl ValueError"
proof (cases "set_slice 0 (length vals) vals (replicate n None)")
  case (Inl e)
  then show ?thesis by (simp add: set_slice_error)
next
  case (Inr row)
  from set_slice_prefix [OF this assms(2)] assms(1) show ?thesis by simp
qed

lemma np_min_Nil: "np_min [] = Inl ValueError"
  by (simp add: np_min_def)


lemma allocate_padded_fails:
  assumes "synthetic_count args mid < 0 \<or> filter (strictly_inside (args_prf_range args)) d = []"
  shows "allocate_padded d args mid = Inl ValueError"
proof -
  let ?kept = "filter (strictly_inside (args_prf_range args)) d"
  let ?n = "int (length ?kept) + synthetic_count args mid"
  have pre: "allocate_padded d args mid =
      (if ?n < 0 then Inl ValueError
       else bind_e (set_slice 0 (length ?kept) (map sx ?kept) (replicate (nat ?n) None)) (\<lambda>row0.
            bind_e (set_slice 0 (length ?kept) (map sy ?kept) (replicate (nat ?n) None)) (\<lambda>row1.
            bind_e (set_slice 0 (length ?kept) (map sval ?kept) (replicate (nat ?n) None)) (\<lambda>row2.
            bind_e (set_slice 0 (length ?kept) (map serr ?kept) (replicate (nat ?n) None)) (\<lambda>row3.
            bind_e (np_min (map serr ?kept)) (\<lambda>min_err.
              Inr [row0, row1, fill_from (length ?kept) (Finite 0) row2,
                   fill_from (length ?kept)
                     (f_div min_err (Finite (real (length ?kept)))) row3]))))))"
    by (simp add: allocate_padded_def Let_def kept_columns_filter num_keep_length
        synthetic_count_def)
  show ?thesis
  proof (cases "?n < 0")
    case True
    then show ?thesis by (simp add: pre)
  next
    case n: False
    show ?thesis
    proof (cases "synthetic_count args mid < 0")
      case True
      with n have "nat ?n < length (map sx ?kept)" by simp
      moreover have "int (nat ?n) = int (length (map sx ?kept))
          + 4 * (spline_pad_npoints args * (mid + spline_pad_npoints args))"
        using n by (simp add: synthetic_count_def)
      ultimately have "set_slice 0 (length (map sx ?kept)) (map sx ?kept)
          (replicate (nat ?n) None) = Inl ValueError"
        by (rule set_slice_prefix_fails)
      with n show ?thesis by (simp add: pre bind_e_simps)
    next
      case False
      with assms have e: "?kept = []" by simp
      from False n show ?thesis
        by (simp add: pre e set_slice_def bind_e_simps np_min_Nil)
    qed
  qed
qed


subsection \<open>The fill loop\<close>
















subsection \<open>What a successful call returns\<close>














subsection \<open>No kept sample\<close>

text \<open>
  C5: when no sample lies strictly inside the unpadded rectangle (in particular for an
  empty input), \<^verbatim>\<open>pad_prf_data\<close> raises: the minimum of the empty array of errors is
  undefined.
\<close>

theorem C5_no_samples_raises:
  assumes "filter (strictly_inside (args_prf_range args)) prf_data = []"
  shows "\<exists>e. pad_prf_data prf_data args = Inl e"
proof (cases "middle_npoints args")
  case (Inl e)
  then show ?thesis by (simp add: pad_prf_data_def bind_e_simps)
next
  case (Inr mid)
  from allocate_padded_fails [of args mid prf_data] assms Inr show ?thesis
    by (simp add: pad_prf_data_def bind_e_simps)
qed

lemma middle_npoints_example: "middle_npoints pad_args = Inr 2"
  by (simp add: middle_npoints_def py_truediv_def py_float_def bind_e_simps pad_args_def
      round_f64_simps)

text \<open>
  C5, witness: the empty input and an input whose only sample lies outside.
\<close>

theorem C5_no_samples_raises_witness:
  "filter (strictly_inside (args_prf_range pad_args)) [] = []
   \<and> filter (strictly_inside (args_prf_range pad_args)) [sample_out] = []
   \<and> pad_prf_data [] pad_args = Inl ValueError
   \<and> pad_prf_data [sample_out] pad_args = Inl ValueError"
proof -
  have out: "filter (strictly_inside (args_prf_range pad_args)) [sample_out] = []"
    by (simp add: strictly_inside_def pad_args_def default_range_def sample_out_def)
  from C5_no_samples_raises [of pad_args "[]"] obtain e
    where e: "pad_prf_data [] pad_args = Inl e" by auto
  from C5_no_samples_raises [OF out] obtain e'
    where e': "pad_prf_data [sample_out] pad_args = Inl e'" by auto
  have "e = ValueError"
    using e allocate_padded_fails [of pad_args 2 "[]"]
    by (simp add: pad_prf_data_def bind_e_simps middle_npoints_example)
  moreover have "e' = ValueError"
    using e' allocate_padded_fails [of pad_args 2 "[sample_out]"] out
    by (simp add: pad_prf_data_def bind_e_simps middle_npoints_example)
  ultimately show ?thesis using e e' out by simp
qed

subsection \<open>The padded array\<close>




text \<open>
  With the defaults of the command line, 100 pad points and the float nearest to 0.01,
  the float quotient is 10000 although the exact quotient of the two floats is below it.
\<close>

lemma middle_npoints_default:
  "middle_npoints default_pad_args = Inr 10000"
  "real_of_int (spline_pad_npoints default_pad_args) / spline_pad_fraction default_pad_args
     < 10000"
proof -
  let ?x = "100 / (5764607523034235 / 2 ^ 59) :: real"
  have k: "spacing_exp ?x = 1035"
    by (rule spacing_exp_eq) (simp_all add: tiny_exp_def)
  have "round_real ?x = of_int (10000 * 2 ^ 39) * 2 ^ 1035 / 2 ^ tiny_exp"
    by (rule round_real_near [OF k]) (simp add: tiny_exp_def)
  then have "round_real ?x = 10000" by (simp add: tiny_exp_def)
  then have q: "round_f64 ?x = Finite 10000"
    by (simp add: round_f64_def overflow_bound_def)
  show "middle_npoints default_pad_args = Inr 10000"
    using q by (simp add: middle_npoints_def py_truediv_def py_float_def bind_e_simps
        default_pad_args_def round_f64_simps)
  show "real_of_int (spline_pad_npoints default_pad_args)
      / spline_pad_fraction default_pad_args < 10000"
    by (simp add: default_pad_args_def)
qed





end
